theory Spec2Isabelle
  imports Complex_Main "HOL-Library.Log_Nat"
begin

section \<open>Progress reporter (conf.py, lines 4 to 39)\<close>

text \<open>
  Python's \<open>int\<close> is unbounded and is modelled by \<open>int\<close>; \<open>//\<close> and \<open>%\<close> with a
  positive divisor are \<open>div\<close> and \<open>mod\<close>. Strings are byte lists.

  A \<open>float\<close> is an IEEE double. A finite double is modelled by the rational number that
  is its exact value, and every operation on doubles rounds its exact result to the
  nearest double, a tie to the even significand (\<open>rd\<close>): 53 significant bits, so the
  result is a multiple of \<open>2 ^ (k - 52)\<close> where \<open>2 ^ k\<close> is the greatest power of two
  that is at most its magnitude. The model covers the numbers that stay finite: overflow
  to infinity and the \<open>OverflowError\<close> of converting an integer beyond the range of
  doubles (magnitudes from \<open>2 ^ 1024\<close>) are outside it, and below \<open>2 ^ -1022\<close>, where
  the hardware keeps fewer bits, the model keeps 53.
\<close>

definition ilog2 :: "rat \<Rightarrow> int" where
  \<comment> \<open>for \<open>x > 0\<close>, the \<open>k\<close> with \<open>2 ^ k \<le> x < 2 ^ (k + 1)\<close>\<close>
  "ilog2 x =
     (case quotient_of x of
        (p, q) \<Rightarrow> let k = bitlen p - bitlen q in if 2 powi k \<le> x then k else k - 1)"

definition py_round :: "rat \<Rightarrow> int" where
  \<comment> \<open>\<open>round(x)\<close>: to the nearest integer, a tie to the even one.\<close>
  "py_round x =
     (let f = \<lfloor>x\<rfloor>; d = x - of_int f in
      if d < 1 / 2 then f else if 1 / 2 < d then f + 1 else if even f then f else f + 1)"

definition rd :: "rat \<Rightarrow> rat" where
  "rd x =
     (if x = 0 then 0
      else let e = ilog2 \<bar>x\<bar> - 52 in of_int (py_round (x / 2 powi e)) * 2 powi e)"

definition fl_of_int :: "int \<Rightarrow> rat" where
  \<comment> \<open>an \<open>int\<close> operand of a \<open>float\<close> operation\<close>
  "fl_of_int n = rd (of_int n)"

definition fl_mul :: "rat \<Rightarrow> rat \<Rightarrow> rat" where
  "fl_mul x y = rd (x * y)"

definition fl_div :: "rat \<Rightarrow> rat \<Rightarrow> rat" where
  "fl_div x y = rd (x / y)"

definition fl_sub :: "rat \<Rightarrow> rat \<Rightarrow> rat" where
  "fl_sub x y = rd (x - y)"

definition int_true_div :: "int \<Rightarrow> int \<Rightarrow> rat" where
  \<comment> \<open>\<open>a / b\<close> of two \<open>int\<close>s: the quotient, rounded once\<close>
  "int_true_div a b = rd (of_int a / of_int b)"

definition digit_char :: "nat \<Rightarrow> char" where
  "digit_char d = ''0123456789'' ! d"

fun digits_of :: "nat \<Rightarrow> string" where
  "digits_of n = (if n < 10 then [digit_char n] else digits_of (n div 10) @ [digit_char (n mod 10)])"

declare digits_of.simps [simp del]

definition str_int :: "int \<Rightarrow> string" where
  \<comment> \<open>\<open>str(i)\<close> for an \<open>int\<close>.\<close>
  "str_int i = (if i < 0 then ''-'' @ digits_of (nat (- i)) else digits_of (nat i))"

definition fmt_0f :: "int \<Rightarrow> string" where
  \<comment> \<open>\<open>f"{duration:.0f}"\<close> of an \<open>int\<close>: the decimal digits, no fraction
      (the conversion to \<open>float\<close> is exact below \<open>2 ^ 53\<close>).\<close>
  "fmt_0f duration = str_int duration"

fun str_join :: "string \<Rightarrow> string list \<Rightarrow> string" where
  "str_join sep [] = []"
| "str_join sep [x] = x"
| "str_join sep (x # y # ys) = x @ sep @ str_join sep (y # ys)"

text \<open>
  The \<open>for\<close> loop of \<open>_format_time\<close> over the four units, with its two variables
  \<open>remaining_seconds\<close> and \<open>time_parts\<close>.
\<close>

fun format_time_loop :: "(string \<times> int) list \<Rightarrow> int \<Rightarrow> string list \<Rightarrow> string list" where
  "format_time_loop [] remaining_seconds time_parts = time_parts"
| "format_time_loop ((unit, val) # rest) remaining_seconds time_parts =
     (let duration = remaining_seconds div val in
      if duration \<noteq> 0
      then format_time_loop rest (remaining_seconds mod val) (time_parts @ [fmt_0f duration @ unit])
      else format_time_loop rest remaining_seconds time_parts)"

definition format_time :: "int \<Rightarrow> string" where
  \<comment> \<open>\<open>_format_time\<close>, lines 4 to 11\<close>
  "format_time seconds =
     str_join '' '' (format_time_loop [(''d'', 86400), (''h'', 3600), (''m'', 60), (''s'', 1)] seconds [])"

definition py_int :: "rat \<Rightarrow> int" where
  \<comment> \<open>\<open>int(x)\<close> of a \<open>float\<close>: truncation towards zero.\<close>
  "py_int x = (if 0 \<le> x then \<lfloor>x\<rfloor> else \<lceil>x\<rceil>)"

definition fmt_1f :: "rat \<Rightarrow> string" where
  \<comment> \<open>\<open>f"{x:.1f}"\<close>: the exact value of the double rounded to one decimal, a tie to
      the even digit, the sign kept.\<close>
  "fmt_1f x =
     (let t = py_round (10 * \<bar>x\<bar>) in
      (if x < 0 then ''-'' else '''') @ str_int (t div 10) @ ''.'' @ str_int (t mod 10))"

definition bar_len :: int where
  "bar_len = 50"

definition percents :: "int \<Rightarrow> int \<Rightarrow> rat" where
  \<comment> \<open>\<open>min(100.0 * current_count / total_count, 100.0)\<close>\<close>
  "percents current_count total_count =
     min (fl_div (fl_mul 100 (fl_of_int current_count)) (fl_of_int total_count)) 100"

definition filled_len :: "int \<Rightarrow> int \<Rightarrow> int" where
  \<comment> \<open>\<open>int(round(bar_len * current_count / total_count))\<close>\<close>
  "filled_len current_count total_count =
     py_round (int_true_div (bar_len * current_count) total_count)"

definition str_times :: "string \<Rightarrow> int \<Rightarrow> string" where
  \<comment> \<open>\<open>s * n\<close>: empty for \<open>n \<le> 0\<close>.\<close>
  "str_times s n = concat (replicate (nat n) s)"

definition bullet :: string where
  \<comment> \<open>U+2219 as its three UTF-8 bytes.\<close>
  "bullet = [CHR 0xE2, CHR 0x88, CHR 0x99]"

definition bar :: "int \<Rightarrow> int \<Rightarrow> string" where
  "bar current_count total_count =
     (let n = filled_len current_count total_count in
      str_times ''#'' n @ str_times bullet (bar_len - n))"

definition elapsed_str :: "rat \<Rightarrow> string" where
  "elapsed_str elapsed_time =
     (let s = format_time (py_int elapsed_time) in if s = [] then ''1s'' else s)"

definition eta_str :: "int \<Rightarrow> int \<Rightarrow> rat \<Rightarrow> string" where
  "eta_str current_count total_count elapsed_time =
     (let p = percents current_count total_count in
      if 0 < p
      then format_time (py_int (fl_mul (fl_div elapsed_time (max p (rd (1 / 10)))) (fl_sub 100 p)))
      else '''')"

definition eta_part :: "int \<Rightarrow> int \<Rightarrow> rat \<Rightarrow> string" where
  \<comment> \<open>\<open>' eta: ' + eta_str if eta_str else ''\<close>\<close>
  "eta_part current_count total_count elapsed_time =
     (let e = eta_str current_count total_count elapsed_time in
      if e = [] then '''' else '' eta: '' @ e)"

definition counts_part :: "int \<Rightarrow> int \<Rightarrow> string" where
  \<comment> \<open>\<open>({current_count}/{total_count if current_count < total_count else total_count})\<close>\<close>
  "counts_part current_count total_count =
     ''('' @ str_int current_count @ ''/''
       @ str_int (if current_count < total_count then total_count else total_count) @ '')''"

definition title_part :: "string option \<Rightarrow> string" where
  \<comment> \<open>\<open>task_title + ': ' if task_title else ''\<close>\<close>
  "title_part task_title =
     (case task_title of None \<Rightarrow> '''' | Some t \<Rightarrow> if t = [] then '''' else t @ '': '')"

definition progress_line :: "int \<Rightarrow> int \<Rightarrow> rat \<Rightarrow> string option \<Rightarrow> string" where
  \<comment> \<open>the argument of \<open>sys.stdout.write\<close>, lines 33 to 38\<close>
  "progress_line current_count total_count elapsed_time task_title =
     [CHR 0x0D] @ title_part task_title
       @ fmt_1f (percents current_count total_count) @ ''% |''
       @ bar current_count total_count @ ''| ''
       @ ''elapsed: '' @ elapsed_str elapsed_time
       @ eta_part current_count total_count elapsed_time @ '' ''
       @ counts_part current_count total_count"

definition log_progress :: "int \<Rightarrow> int \<Rightarrow> rat \<Rightarrow> string option \<Rightarrow> string option" where
  \<comment> \<open>The text written to standard output; \<open>None\<close> when nothing is written.\<close>
  "log_progress current_count total_count elapsed_time task_title =
     (if total_count \<le> 0 then None
      else Some (progress_line current_count total_count elapsed_time task_title))"

section \<open>Exceptions, log records and effects (conf.py, lines 42 to 78)\<close>

text \<open>
  An exception is a value with its class. \<open>OtherException\<close> stands for every other
  subclass of \<open>Exception\<close>, \<open>OtherBaseException\<close> for a \<open>BaseException\<close> outside
  \<open>Exception\<close> (\<open>KeyboardInterrupt\<close>, \<open>SystemExit\<close>). A call that raises returns
  \<open>Inl\<close> of the exception. A Python value that may be \<open>None\<close> is an \<open>option\<close>.
\<close>

datatype exn_class =
  ApiPermissionError | AttributeError | NameError | ValueError | TypeError
  | OtherException | OtherBaseException

datatype py_exn = Exn (exn_class: exn_class) (exn_msg: string)

definition is_permission :: "py_exn \<Rightarrow> bool" where
  \<comment> \<open>\<open>isinstance(ex, ApiPermissionError)\<close>\<close>
  "is_permission ex = (exn_class ex = ApiPermissionError)"

definition is_Exception :: "py_exn \<Rightarrow> bool" where
  \<comment> \<open>what \<open>except Exception\<close> catches\<close>
  "is_Exception ex = (exn_class ex \<noteq> OtherBaseException)"

datatype py_arg = AStr string | AInt int | ANone

type_synonym call_args = "py_arg list \<times> (string \<times> py_arg) list"

datatype log_level = DEBUG | INFO | WARNING | ERROR | CRITICAL

datatype log_msg =
    Retrying string int py_exn
      \<comment> \<open>\<open>before_sleep_log\<close>: function name, seconds to sleep, the exception raised\<close>
  | OperationFailed int string call_args py_exn
      \<comment> \<open>line 93: attempt count, function name, arguments, exception with its traceback\<close>
  | NoPagesFound string
      \<comment> \<open>line 124\<close>
  | FailedToDownload string py_exn
      \<comment> \<open>line 141, \<open>logger.exception\<close>: the message and the traceback of the exception\<close>

text \<open>
  What a run does beyond its result, in order: calls of a wrapped function, sleeps
  between attempts, records of the logger \<open>confluence\<close> (level \<open>DEBUG\<close>, so every record
  is emitted) and texts written to standard output. The state of the remote service is
  the \<open>world\<close>, of a type the model leaves open.
\<close>

datatype event =
    Called string call_args
  | Slept int
  | Logged log_level log_msg
  | Wrote string

record 'w st =
  world :: 'w
  events :: "event list"

definition emit :: "event \<Rightarrow> 'w st \<Rightarrow> 'w st" where
  "emit e s = s\<lparr>events := events s @ [e]\<rparr>"

section \<open>Retry policy (conf.py, lines 80 to 112)\<close>

text \<open>
  \<open>with_retry\<close> hands \<open>func\<close> to \<open>tenacity.retry\<close>. The loop below is
  \<open>Retrying.__call__\<close> with \<open>Retrying.iter\<close> of tenacity, for the arguments given in
  lines 103 to 110:
  \<^item> the function is called, and a value it returns is returned (the predicate
    \<open>retry_if_not_exception_type\<close> is false for an outcome that is no exception);
  \<^item> an exception for which the predicate is false, an \<open>ApiPermissionError\<close>, is raised
    again by \<open>fut.result()\<close>;
  \<^item> otherwise \<open>stop_after_attempt(max_retries)\<close> is asked
    (\<open>attempt_number >= max_retries\<close>); when it holds, the result of
    \<open>retry_error_callback\<close>, which is \<open>log_retry_error\<close>, is the result of the call;
  \<^item> otherwise \<open>before_sleep_log\<close> writes a warning, the loop sleeps for
    \<open>wait_exponential(multiplier=1, min=1, max=5)\<close> seconds and calls again.
  \<open>tenacity.TryAgain\<close>, which no function of the source raises, is left out.
\<close>

definition attempt ::
  "string \<Rightarrow> call_args \<Rightarrow> ('w \<Rightarrow> (py_exn + 'a option) \<times> 'w) \<Rightarrow> 'w st
     \<Rightarrow> (py_exn + 'a option) \<times> 'w st" where
  \<comment> \<open>\<open>fn(*args, **kwargs)\<close> inside \<open>try\<close> / \<open>except BaseException\<close>\<close>
  "attempt fname args func s =
     (case func (world s) of
        (r, w) \<Rightarrow> (r, s\<lparr>world := w, events := events s @ [Called fname args]\<rparr>))"

definition wait_exponential :: "int \<Rightarrow> int" where
  \<comment> \<open>\<open>max(max(0, min), min(multiplier * 2 ** (attempt_number - 1), max))\<close>\<close>
  "wait_exponential attempt_number = max (max 0 1) (min (1 * 2 ^ nat (attempt_number - 1)) 5)"

definition log_retry_error ::
  "bool \<Rightarrow> string \<Rightarrow> call_args \<Rightarrow> int \<Rightarrow> (py_exn + 'a option) \<Rightarrow> 'w st
     \<Rightarrow> (py_exn + 'a option) \<times> 'w st" where
  \<comment> \<open>Lines 82 to 101. In the branch for \<open>ApiPermissionError\<close> the message of the warning
      reads \<open>space_key\<close> and \<open>e\<close>, which are bound neither in \<open>with_retry\<close> nor in the
      module: evaluating it raises \<open>NameError\<close> before anything is logged.\<close>
  "log_retry_error reraise fname args attempt_number outcome s =
     (case outcome of
        Inr _ \<Rightarrow> (Inr None, s)
      | Inl ex \<Rightarrow>
          if is_permission ex then (Inl (Exn NameError ''space_key''), s)
          else
            let s1 = emit (Logged ERROR (OperationFailed attempt_number fname args ex)) s in
            if reraise then (Inl ex, s1) else (Inr None, s1))"

function retry_loop ::
  "int \<Rightarrow> bool \<Rightarrow> string \<Rightarrow> call_args \<Rightarrow> ('w \<Rightarrow> (py_exn + 'a option) \<times> 'w) \<Rightarrow> int \<Rightarrow> 'w st
     \<Rightarrow> (py_exn + 'a option) \<times> 'w st" where
  "retry_loop max_retries reraise fname args func attempt_number s =
     (case attempt fname args func s of
        (Inr result, s1) \<Rightarrow> (Inr result, s1)
      | (Inl ex, s1) \<Rightarrow>
          if is_permission ex then (Inl ex, s1)
          else if max_retries \<le> attempt_number
          then log_retry_error reraise fname args attempt_number (Inl ex) s1
          else
            retry_loop max_retries reraise fname args func (attempt_number + 1)
              (emit (Slept (wait_exponential attempt_number))
                 (emit (Logged WARNING (Retrying fname (wait_exponential attempt_number) ex)) s1)))"
  by pat_completeness auto
termination
  by (relation "measure (\<lambda>(max_retries, reraise, fname, args, func, attempt_number, s).
        nat (max_retries - attempt_number))") auto

declare retry_loop.simps [simp del]

definition with_retry ::
  "int \<Rightarrow> bool \<Rightarrow> string \<Rightarrow> call_args \<Rightarrow> ('w \<Rightarrow> (py_exn + 'a option) \<times> 'w) \<Rightarrow> 'w st
     \<Rightarrow> (py_exn + 'a option) \<times> 'w st" where
  \<comment> \<open>\<open>with_retry(max_retries, reraise)(func)(*args, **kwargs)\<close>; the first attempt has
      number 1. The defaults are \<open>max_retries = 5\<close> and \<open>reraise = False\<close>.\<close>
  "with_retry max_retries reraise fname args func s =
     retry_loop max_retries reraise fname args func 1 s"

section \<open>Paginated fetcher (conf.py, lines 114 to 141)\<close>

text \<open>
  The client \<open>confluence\<close>: its two methods act on the world, and \<open>time.perf_counter\<close>
  reads the clock, whose value may depend on the world and on everything that has
  happened. A page is of any type \<open>'p\<close>. The dictionary returned by \<open>cql\<close> is a map.
\<close>

record ('w, 'p) env =
  cql :: "string \<Rightarrow> 'w \<Rightarrow> (py_exn + (string \<rightharpoonup> int) option) \<times> 'w"
  get_all_pages_from_space :: "string \<Rightarrow> nat \<Rightarrow> nat \<Rightarrow> 'w \<Rightarrow> (py_exn + 'p list option) \<times> 'w"
  perf_counter :: "'w st \<Rightarrow> rat"

definition cql_query :: "string \<Rightarrow> string" where
  "cql_query space_key = ''space = '' @ [CHR 0x27] @ space_key @ [CHR 0x27] @ '' and type = ''
     @ [CHR 0x27] @ ''page'' @ [CHR 0x27]"

definition cql_args :: "string \<Rightarrow> call_args" where
  "cql_args space_key = ([AStr (cql_query space_key)], [(''limit'', AInt 1), (''expand'', ANone)])"

definition get_page_count :: "('w, 'p) env \<Rightarrow> string \<Rightarrow> 'w st \<Rightarrow> (py_exn + int option) \<times> 'w st" where
  \<comment> \<open>\<open>.get\<close> on \<open>None\<close> raises \<open>AttributeError\<close>.\<close>
  "get_page_count e space_key s =
     (case with_retry 5 False ''cql'' (cql_args space_key) (cql e (cql_query space_key)) s of
        (Inl ex, s1) \<Rightarrow> (Inl ex, s1)
      | (Inr None, s1) \<Rightarrow> (Inl (Exn AttributeError ''get''), s1)
      | (Inr (Some d), s1) \<Rightarrow> (Inr (d ''totalSize''), s1))"

definition limit :: nat where
  "limit = 2"

definition page_args :: "string \<Rightarrow> nat \<Rightarrow> call_args" where
  "page_args space_key start =
     ([AStr space_key],
      [(''start'', AInt (int start)), (''limit'', AInt (int limit)), (''content_type'', AStr ''page''),
       (''expand'', AStr ''space,body.view,version,container,modificationDate'')])"

definition download_title :: "string \<Rightarrow> string" where
  "download_title space_key = ''Downloading space: '' @ space_key"

definition write_progress :: "int \<Rightarrow> int \<Rightarrow> rat \<Rightarrow> string \<Rightarrow> 'w st \<Rightarrow> 'w st" where
  \<comment> \<open>the call of \<open>log_progress\<close> in line 136\<close>
  "write_progress current_count total_count elapsed_time title s =
     (case log_progress current_count total_count elapsed_time (Some title) of
        None \<Rightarrow> s
      | Some text \<Rightarrow> emit (Wrote text) s)"

definition wrapped_pages ::
  "('w, 'p) env \<Rightarrow> string \<Rightarrow> nat \<Rightarrow> 'w st \<Rightarrow> (py_exn + 'p list option) \<times> 'w st" where
  \<comment> \<open>the call in lines 128 to 130\<close>
  "wrapped_pages e space_key start s =
     with_retry 5 False ''get_all_pages_from_space'' (page_args space_key start)
       (get_all_pages_from_space e space_key start limit) s"

text \<open>
  One pass through the body of \<open>while True\<close> (lines 128 to 136), from the variables
  \<open>pages\<close>, \<open>start\<close> and the state: \<open>Inl\<close> when the pass leaves the loop, by \<open>break\<close>
  with the pages accumulated or by an exception, \<open>Inr\<close> of the new variables when the loop
  goes round again.
\<close>

definition loop_body ::
  "('w, 'p) env \<Rightarrow> string \<Rightarrow> int \<Rightarrow> rat \<Rightarrow> 'p list \<times> nat \<times> 'w st
     \<Rightarrow> ((py_exn + 'p list) \<times> 'w st) + ('p list \<times> nat \<times> 'w st)" where
  "loop_body e space_key pages_count start_time x =
     (case x of (pages, start, s) \<Rightarrow>
        (case wrapped_pages e space_key start s of
           (Inl ex, s1) \<Rightarrow> Inl (Inl ex, s1)
         | (Inr None, s1) \<Rightarrow> Inl (Inr pages, s1)
         | (Inr (Some page_data), s1) \<Rightarrow>
             if page_data = [] then Inl (Inr pages, s1)
             else
               let pages' = pages @ page_data;
                   start' = start + length page_data;
                   elapsed_time = fl_sub (perf_counter e s1) start_time
               in Inr (pages', start',
                       write_progress (int (length pages')) pages_count elapsed_time
                         (download_title space_key) s1)))"

text \<open>
  The loop has no bound of its own: it ends when a pass leaves it. \<open>None\<close> is a run that
  never ends.
\<close>

partial_function (option) fetch_loop ::
  "('w, 'p) env \<Rightarrow> string \<Rightarrow> int \<Rightarrow> rat \<Rightarrow> 'p list \<times> nat \<times> 'w st
     \<Rightarrow> ((py_exn + 'p list) \<times> 'w st) option" where
  "fetch_loop e space_key pages_count start_time x =
     (case loop_body e space_key pages_count start_time x of
        Inl r \<Rightarrow> Some r
      | Inr x' \<Rightarrow> fetch_loop e space_key pages_count start_time x')"

declare fetch_loop.simps [code]

text \<open>
  The variables after \<open>n\<close> passes that all went round again; \<open>None\<close> if one of them
  left the loop.
\<close>

fun passes ::
  "('w, 'p) env \<Rightarrow> string \<Rightarrow> int \<Rightarrow> rat \<Rightarrow> nat \<Rightarrow> 'p list \<times> nat \<times> 'w st
     \<Rightarrow> ('p list \<times> nat \<times> 'w st) option" where
  "passes e space_key pages_count start_time 0 x = Some x"
| "passes e space_key pages_count start_time (Suc n) x =
     (case loop_body e space_key pages_count start_time x of
        Inl r \<Rightarrow> None
      | Inr x' \<Rightarrow> passes e space_key pages_count start_time n x')"

definition download_space_body ::
  "('w, 'p) env \<Rightarrow> string \<Rightarrow> 'w st \<Rightarrow> ((py_exn + 'p list option) \<times> 'w st) option" where
  \<comment> \<open>Lines 121 to 138, the body of \<open>try\<close>. A \<open>return\<close> with no value returns \<open>None\<close>.\<close>
  "download_space_body e space_key s =
     (let start_time = perf_counter e s in
      case get_page_count e space_key s of
        (Inl ex, s1) \<Rightarrow> Some (Inl ex, s1)
      | (Inr pages_count, s1) \<Rightarrow>
          (case pages_count of
             None \<Rightarrow> Some (Inr None, emit (Logged WARNING (NoPagesFound space_key)) s1)
           | Some n \<Rightarrow>
               if n = 0 then Some (Inr None, emit (Logged WARNING (NoPagesFound space_key)) s1)
               else
                 (case fetch_loop e space_key n start_time ([], 0, s1) of
                    None \<Rightarrow> None
                  | Some (Inl ex, s2) \<Rightarrow> Some (Inl ex, s2)
                  | Some (Inr pages, s2) \<Rightarrow> Some (Inr (Some pages), s2))))"

definition download_space ::
  "('w, 'p) env \<Rightarrow> string \<Rightarrow> 'w st \<Rightarrow> ((py_exn + 'p list option) \<times> 'w st) option" where
  \<comment> \<open>Lines 119 to 141: \<open>except Exception\<close> logs and falls off the end of the function,
      which returns \<open>None\<close>; any other exception passes through.\<close>
  "download_space e space_key s =
     (case download_space_body e space_key s of
        None \<Rightarrow> None
      | Some (Inl ex, s1) \<Rightarrow>
          if is_Exception ex
          then Some (Inr None, emit (Logged ERROR (FailedToDownload space_key ex)) s1)
          else Some (Inl ex, s1)
      | Some (Inr r, s1) \<Rightarrow> Some (Inr r, s1))"

section \<open>Logging facade (logger.py, lines 7 to 62)\<close>

text \<open>
  The state that the class \<open>CloudwatchLogger\<close> acts on: its dictionary \<open>_loggers\<close>,
  from names to instances; the instances, each with an identity and its attributes; the
  loggers of the module \<open>logging\<close>, by name, each with its level, handlers and
  \<open>propagate\<close> flag; and, in order, the calls made to \<open>logging.getLogger\<close>, to the
  tracer (\<open>xray_recorder.configure\<close>, \<open>patch_all\<close>) and to \<open>logger.error\<close>.
\<close>

datatype handler = StreamHandler | CloudWatchLogHandler | FileHandler

record py_logger =
  lg_level :: int
  lg_handlers :: "handler list"
  lg_propagate :: bool

record cw_object =
  initialized :: bool
  logger :: "string option"
  logger_name :: "string option"

datatype lg_event = GetLogger string | XrayConfigure | PatchAll | LoggedError string

record lg_state =
  loggers :: "string \<rightharpoonup> nat"
  heap :: "nat \<rightharpoonup> cw_object"
  next_id :: nat
  logging :: "string \<Rightarrow> py_logger"
  trace :: "lg_event list"

text \<open>
  What a construction meets outside the class: an exception raised while the handler of
  the log service is made (\<open>boto3.client\<close>, \<open>CloudWatchLogHandler\<close>), an exception
  raised when the log file is opened, and whether a logger above this one, reached by
  propagation, has a handler (the second half of \<open>hasHandlers\<close>).
\<close>

record io =
  aws_error :: "py_exn option"
  file_error :: "py_exn option"
  ancestors_have_handlers :: bool

datatype level_arg = LevelInt int | LevelStr string

definition upper_char :: "char \<Rightarrow> char" where
  "upper_char c =
     (let n = (of_char c :: nat) in if 97 \<le> n \<and> n \<le> 122 then char_of (n - 32) else c)"

definition upper :: "string \<Rightarrow> string" where
  \<comment> \<open>\<open>str.upper\<close>, for ASCII\<close>
  "upper s = map upper_char s"

datatype attr_value = IntAttr int | StrAttr string | OtherAttr

definition name_to_level :: "string \<rightharpoonup> int" where
  \<comment> \<open>\<open>logging._nameToLevel\<close>\<close>
  "name_to_level =
     [''CRITICAL'' \<mapsto> 50, ''FATAL'' \<mapsto> 50, ''ERROR'' \<mapsto> 40, ''WARN'' \<mapsto> 30,
      ''WARNING'' \<mapsto> 30, ''INFO'' \<mapsto> 20, ''DEBUG'' \<mapsto> 10, ''NOTSET'' \<mapsto> 0]"

definition logging_attr :: "string \<rightharpoonup> attr_value" where
  \<comment> \<open>The attributes of the module \<open>logging\<close> whose names have no lower-case letter, the
      only ones a name can reach after \<open>upper\<close>: the levels, the string \<open>BASIC_FORMAT\<close>
      and the dictionary \<open>_STYLES\<close>.\<close>
  "logging_attr =
     [''CRITICAL'' \<mapsto> IntAttr 50, ''FATAL'' \<mapsto> IntAttr 50, ''ERROR'' \<mapsto> IntAttr 40,
      ''WARNING'' \<mapsto> IntAttr 30, ''WARN'' \<mapsto> IntAttr 30, ''INFO'' \<mapsto> IntAttr 20,
      ''DEBUG'' \<mapsto> IntAttr 10, ''NOTSET'' \<mapsto> IntAttr 0,
      ''BASIC_FORMAT'' \<mapsto> StrAttr ''%(levelname)s:%(name)s:%(message)s'',
      ''_STYLES'' \<mapsto> OtherAttr]"

definition resolve_level :: "level_arg \<Rightarrow> attr_value" where
  \<comment> \<open>Lines 59 to 61: \<open>getattr(logging, level.upper(), logging.INFO)\<close> for a string.\<close>
  "resolve_level level =
     (case level of
        LevelInt n \<Rightarrow> IntAttr n
      | LevelStr s \<Rightarrow> (case logging_attr (upper s) of Some v \<Rightarrow> v | None \<Rightarrow> IntAttr 20))"

definition check_level :: "attr_value \<Rightarrow> py_exn + int" where
  \<comment> \<open>\<open>logging._checkLevel\<close>, which \<open>Logger.setLevel\<close> calls first\<close>
  "check_level v =
     (case v of
        IntAttr n \<Rightarrow> Inr n
      | StrAttr nm \<Rightarrow>
          (case name_to_level nm of
             Some n \<Rightarrow> Inr n
           | None \<Rightarrow> Inl (Exn ValueError (''Unknown level: '' @ nm)))
      | OtherAttr \<Rightarrow> Inl (Exn TypeError ''Level not an integer or a valid string''))"

definition logger_key :: "string \<Rightarrow> string" where
  \<comment> \<open>\<open>logging.getLogger\<close> gives the root logger for the empty name.\<close>
  "logger_key name = (if name = [] then ''root'' else name)"

definition update_obj :: "nat \<Rightarrow> (cw_object \<Rightarrow> cw_object) \<Rightarrow> lg_state \<Rightarrow> lg_state" where
  "update_obj obj f s = s\<lparr>heap := (heap s)(obj := map_option f (heap s obj))\<rparr>"

definition update_logger :: "string \<Rightarrow> (py_logger \<Rightarrow> py_logger) \<Rightarrow> lg_state \<Rightarrow> lg_state" where
  "update_logger key f s = s\<lparr>logging := (logging s)(key := f (logging s key))\<rparr>"

definition traced :: "lg_event \<Rightarrow> lg_state \<Rightarrow> lg_state" where
  "traced ev s = s\<lparr>trace := trace s @ [ev]\<rparr>"

definition setLevel :: "string \<Rightarrow> int \<Rightarrow> lg_state \<Rightarrow> lg_state" where
  "setLevel key n = update_logger key (\<lambda>l. l\<lparr>lg_level := n\<rparr>)"

definition addHandler :: "string \<Rightarrow> handler \<Rightarrow> lg_state \<Rightarrow> lg_state" where
  "addHandler key h = update_logger key (\<lambda>l. l\<lparr>lg_handlers := lg_handlers l @ [h]\<rparr>)"

definition hasHandlers :: "io \<Rightarrow> string \<Rightarrow> lg_state \<Rightarrow> bool" where
  "hasHandlers x key s =
     (lg_handlers (logging s key) \<noteq> []
      \<or> (lg_propagate (logging s key) \<and> ancestors_have_handlers x))"

definition set_log_level ::
  "string \<Rightarrow> level_arg \<Rightarrow> lg_state \<Rightarrow> (py_exn + unit) \<times> lg_state" where
  \<comment> \<open>lines 58 to 62, on the logger that \<open>self.logger\<close> holds\<close>
  "set_log_level key level s =
     (case check_level (resolve_level level) of
        Inl ex \<Rightarrow> (Inl ex, s)
      | Inr n \<Rightarrow> (Inr (), setLevel key n s))"

definition cw_new :: "string \<Rightarrow> lg_state \<Rightarrow> nat \<times> lg_state" where
  \<comment> \<open>\<open>__new__\<close>, lines 10 to 15\<close>
  "cw_new name s =
     (case loggers s name of
        Some obj \<Rightarrow> (obj, s)
      | None \<Rightarrow>
          (next_id s,
           s\<lparr>loggers := (loggers s)(name \<mapsto> next_id s),
              heap := (heap s)(next_id s \<mapsto>
                \<lparr>initialized = False, logger = None, logger_name = None\<rparr>),
              next_id := Suc (next_id s)\<rparr>))"

definition file_handler :: "io \<Rightarrow> string \<Rightarrow> lg_state \<Rightarrow> (py_exn + unit) \<times> lg_state" where
  \<comment> \<open>lines 49 to 54\<close>
  "file_handler x key s =
     (case file_error x of
        Some ex \<Rightarrow> (Inl ex, s)
      | None \<Rightarrow> (Inr (), addHandler key FileHandler s))"

definition wire_handlers :: "io \<Rightarrow> string \<Rightarrow> lg_state \<Rightarrow> (py_exn + unit) \<times> lg_state" where
  \<comment> \<open>lines 31 to 54, the body of \<open>if not self.logger.hasHandlers()\<close>\<close>
  "wire_handlers x key s =
     (let s1 = addHandler key StreamHandler s in
      case aws_error x of
        None \<Rightarrow> file_handler x key (addHandler key CloudWatchLogHandler s1)
      | Some ex \<Rightarrow>
          if is_Exception ex then file_handler x key (traced (LoggedError key) s1)
          else (Inl ex, s1))"

definition cw_init ::
  "nat \<Rightarrow> level_arg \<Rightarrow> string \<Rightarrow> io \<Rightarrow> lg_state \<Rightarrow> (py_exn + unit) \<times> lg_state" where
  \<comment> \<open>\<open>__init__\<close>, lines 17 to 56\<close>
  "cw_init obj level name x s =
     (case heap s obj of
        None \<Rightarrow> (Inl (Exn AttributeError ''_initialized''), s)
      | Some ob \<Rightarrow>
          if initialized ob then (Inr (), s)
          else
            let key = logger_key name;
                s1 = update_obj obj (\<lambda>ob. ob\<lparr>initialized := True\<rparr>) s;
                s2 = update_obj obj (\<lambda>ob. ob\<lparr>logger := Some key\<rparr>) (traced (GetLogger name) s1)
            in case set_log_level key level s2 of
                 (Inl ex, s3) \<Rightarrow> (Inl ex, s3)
               | (Inr u, s3) \<Rightarrow>
                   let s4 = setLevel key 10 s3;
                       s5 = update_obj obj (\<lambda>ob. ob\<lparr>logger_name := Some name\<rparr>) s4;
                       s6 = traced PatchAll (traced XrayConfigure s5)
                   in if hasHandlers x key s6
                      then (Inr (), update_logger key (\<lambda>l. l\<lparr>lg_propagate := False\<rparr>) s6)
                      else
                        (case wire_handlers x key s6 of
                           (Inl ex, s7) \<Rightarrow> (Inl ex, s7)
                         | (Inr u, s7) \<Rightarrow>
                             (Inr (),
                              update_logger key (\<lambda>l. l\<lparr>lg_propagate := False\<rparr>) s7)))"

definition CloudwatchLogger ::
  "level_arg \<Rightarrow> string \<Rightarrow> io \<Rightarrow> lg_state \<Rightarrow> (py_exn + nat) \<times> lg_state" where
  \<comment> \<open>The call \<open>CloudwatchLogger(level, name)\<close>: \<open>__new__\<close>, then \<open>__init__\<close> on the
      instance it returns; the result is that instance.\<close>
  "CloudwatchLogger level name x s =
     (case cw_new name s of
        (obj, s1) \<Rightarrow>
          (case cw_init obj level name x s1 of
             (Inl ex, s2) \<Rightarrow> (Inl ex, s2)
           | (Inr u, s2) \<Rightarrow> (Inr obj, s2)))"

text \<open>
  A process starts with an empty \<open>_loggers\<close> and any loggers. \<open>construct_all\<close> makes the
  constructions of a list one after the other.
\<close>

definition start_state :: "(string \<Rightarrow> py_logger) \<Rightarrow> lg_state" where
  "start_state reg =
     \<lparr>loggers = Map.empty, heap = Map.empty, next_id = 0, logging = reg, trace = []\<rparr>"

fun construct_all :: "(level_arg \<times> string \<times> io) list \<Rightarrow> lg_state \<Rightarrow> lg_state" where
  "construct_all [] s = s"
| "construct_all ((level, name, x) # cs) s = construct_all cs (snd (CloudwatchLogger level name x s))"

definition fresh_loggers :: "string \<Rightarrow> py_logger" where
  \<comment> \<open>no logger configured: level \<open>NOTSET\<close>, no handler, \<open>propagate\<close> set\<close>
  "fresh_loggers key = \<lparr>lg_level = 0, lg_handlers = [], lg_propagate = True\<rparr>"

definition quiet :: io where
  "quiet = \<lparr>aws_error = None, file_error = None, ancestors_have_handlers = False\<rparr>"

text \<open>
  What holds of the class after any constructions: every name in \<open>_loggers\<close> has an
  instance that is allocated and initialised, two names never share an instance, every
  instance belongs to a name, and \<open>logging.getLogger\<close> has been called once for each name
  in \<open>_loggers\<close> and for no other.
\<close>

definition registered :: "lg_state \<Rightarrow> bool" where
  "registered s \<longleftrightarrow>
     (\<forall>name obj. loggers s name = Some obj \<longrightarrow>
        obj < next_id s \<and> (\<exists>ob. heap s obj = Some ob \<and> initialized ob))
     \<and> inj_on (loggers s) (dom (loggers s))
     \<and> dom (heap s) = ran (loggers s)
     \<and> (\<forall>name. count_list (trace s) (GetLogger name) = (if name \<in> dom (loggers s) then 1 else 0))"

section \<open>Reading a run\<close>

fun is_call :: "event \<Rightarrow> bool" where
  "is_call (Called f a) = True"
| "is_call _ = False"

fun is_log :: "log_level \<Rightarrow> event \<Rightarrow> bool" where
  "is_log l (Logged l' m) = (l = l')"
| "is_log l _ = False"

fun written :: "event list \<Rightarrow> string list" where
  "written [] = []"
| "written (Wrote t # es) = t # written es"
| "written (_ # es) = written es"

fun calls_of :: "string \<Rightarrow> event list \<Rightarrow> call_args list" where
  "calls_of f [] = []"
| "calls_of f (Called g a # es) = (if f = g then a # calls_of f es else calls_of f es)"
| "calls_of f (_ # es) = calls_of f es"

definition result_of :: "('r \<times> 'w st) option \<Rightarrow> 'r option" where
  "result_of run = map_option fst run"

definition events_of :: "('r \<times> 'w st) option \<Rightarrow> event list" where
  "events_of run = (case run of None \<Rightarrow> [] | Some (r, s) \<Rightarrow> events s)"

definition init :: "unit st" where
  "init = \<lparr>world = (), events = []\<rparr>"

section \<open>Example services\<close>

text \<open>A wrapped function that is refused, and one that fails every time.\<close>

definition denied_call :: "unit \<Rightarrow> (py_exn + unit option) \<times> unit" where
  "denied_call w = (Inl (Exn ApiPermissionError ''forbidden''), w)"

definition failing_call :: "unit \<Rightarrow> (py_exn + unit option) \<times> unit" where
  "failing_call w = (Inl (Exn OtherException ''timeout''), w)"

text \<open>
  The service of C2: five pages are counted, and the pages \<open>[a, b]\<close>, \<open>[c, d]\<close>, \<open>[e]\<close>
  and \<open>[]\<close> are returned at the offsets 0, 2, 4 and 5, under any clock.
\<close>

definition trace_env ::
  "'p \<Rightarrow> 'p \<Rightarrow> 'p \<Rightarrow> 'p \<Rightarrow> 'p \<Rightarrow> (unit st \<Rightarrow> rat) \<Rightarrow> (unit, 'p) env" where
  "trace_env a b c d e' clock =
     \<lparr>cql = (\<lambda>q w. (Inr (Some [''totalSize'' \<mapsto> 5]), w)),
      get_all_pages_from_space = (\<lambda>space_key start lim w.
        (Inr (Some (if start = 0 then [a, b] else if start = 2 then [c, d]
                    else if start = 4 then [e'] else [])), w)),
      perf_counter = clock\<rparr>"

definition still_clock :: "unit st \<Rightarrow> rat" where
  "still_clock s = 0"

text \<open>A service that counts two pages and then has three.\<close>

definition over_env :: "(unit, string) env" where
  "over_env =
     \<lparr>cql = (\<lambda>q w. (Inr (Some [''totalSize'' \<mapsto> 2]), w)),
      get_all_pages_from_space = (\<lambda>space_key start lim w.
        (Inr (Some (if start = 0 then [''a'', ''b''] else if start = 2 then [''c''] else [])), w)),
      perf_counter = still_clock\<rparr>"

text \<open>A service that counts no page, and one that refuses the count.\<close>

definition empty_env :: "(unit, string) env" where
  "empty_env =
     \<lparr>cql = (\<lambda>q w. (Inr (Some [''totalSize'' \<mapsto> 0]), w)),
      get_all_pages_from_space = (\<lambda>space_key start lim w. (Inr (Some [''a'']), w)),
      perf_counter = still_clock\<rparr>"

definition denied_env :: "(unit, string) env" where
  "denied_env =
     \<lparr>cql = (\<lambda>q w. (Inl (Exn ApiPermissionError ''forbidden''), w)),
      get_all_pages_from_space = (\<lambda>space_key start lim w. (Inr (Some []), w)),
      perf_counter = still_clock\<rparr>"

section \<open>Properties of the progress reporter\<close>

lemma log_progress_line:
  "0 < total_count \<Longrightarrow>
     log_progress current_count total_count elapsed_time task_title =
       Some ([CHR 0x0D] @ title_part task_title
             @ fmt_1f (percents current_count total_count) @ ''% |''
             @ bar current_count total_count @ ''| ''
             @ ''elapsed: '' @ elapsed_str elapsed_time
             @ eta_part current_count total_count elapsed_time @ '' ''
             @ counts_part current_count total_count)"
  by (simp add: log_progress_def progress_line_def)

lemma py_round_error: "\<bar>of_int (py_round y) - y\<bar> \<le> 1 / 2"
proof -
  have "of_int \<lfloor>y\<rfloor> \<le> y" "y < of_int \<lfloor>y\<rfloor> + 1" by linarith+
  then show ?thesis unfolding py_round_def Let_def by (simp add: abs_if) linarith
qed

lemma py_round_nonneg: "0 \<le> y \<Longrightarrow> 0 \<le> py_round y"
  by (auto simp: py_round_def Let_def)

lemma ilog2_le:
  assumes "0 < x"
  shows "2 powi ilog2 x \<le> x"
proof -
  obtain p q where pq: "quotient_of x = (p, q)" by (cases "quotient_of x")
  then have q: "0 < q" by (rule quotient_of_denom_pos)
  from pq have x: "x = of_int p / of_int q" by (rule quotient_of_div)
  with assms q have p: "0 < p" by (simp add: zero_less_divide_iff)
  from bitlen_bounds [OF p] have lo: "2 ^ nat (bitlen p - 1) \<le> p" by simp
  from bitlen_bounds [OF q] have hi: "q < 2 ^ nat (bitlen q)" by simp
  have bp: "1 \<le> bitlen p" using p by (simp add: bitlen_alt_def)
  have bq: "0 \<le> bitlen q" by (rule bitlen_nonneg)
  have lo': "(2::rat) powi (bitlen p - 1) \<le> of_int p"
  proof -
    have "(2::rat) powi (bitlen p - 1) = 2 ^ nat (bitlen p - 1)" using bp by (simp add: power_int_def)
    also have "\<dots> = of_int (2 ^ nat (bitlen p - 1))" by simp
    also have "\<dots> \<le> of_int p" using lo by (simp only: of_int_le_iff)
    finally show ?thesis .
  qed
  have hi': "of_int q \<le> (2::rat) powi bitlen q"
  proof -
    have "(of_int q :: rat) \<le> of_int (2 ^ nat (bitlen q))" using hi by (simp only: of_int_le_iff)
    also have "\<dots> = 2 powi bitlen q" using bq by (simp add: power_int_def)
    finally show ?thesis .
  qed
  have low: "(2::rat) powi (bitlen p - bitlen q - 1) \<le> x"
  proof -
    have d: "(2::rat) powi (bitlen p - 1 - bitlen q) = 2 powi (bitlen p - 1) / 2 powi bitlen q"
      by (rule power_int_diff) simp
    have main: "(2::rat) powi (bitlen p - 1 - bitlen q) \<le> of_int p / of_int q"
      unfolding d using lo' hi' q p by (intro frac_le) auto
    have eq: "bitlen p - bitlen q - 1 = bitlen p - 1 - bitlen q" by simp
    show ?thesis unfolding eq x by (rule main)
  qed
  show ?thesis using low pq by (simp add: ilog2_def Let_def)
qed

lemma ilog2_less:
  assumes "0 < x"
  shows "x < 2 powi (ilog2 x + 1)"
proof -
  obtain p q where pq: "quotient_of x = (p, q)" by (cases "quotient_of x")
  then have q: "0 < q" by (rule quotient_of_denom_pos)
  from pq have x: "x = of_int p / of_int q" by (rule quotient_of_div)
  with assms q have p: "0 < p" by (simp add: zero_less_divide_iff)
  from bitlen_bounds [OF p] have hi: "p < 2 ^ nat (bitlen p)" by simp
  from bitlen_bounds [OF q] have lo: "2 ^ nat (bitlen q - 1) \<le> q" by simp
  have bp: "0 \<le> bitlen p" by (rule bitlen_nonneg)
  have bq: "1 \<le> bitlen q" using q by (simp add: bitlen_alt_def)
  have hi': "of_int p < (2::rat) powi bitlen p"
  proof -
    have "(of_int p :: rat) < of_int (2 ^ nat (bitlen p))" using hi by (simp only: of_int_less_iff)
    also have "\<dots> = 2 powi bitlen p" using bp by (simp add: power_int_def)
    finally show ?thesis .
  qed
  have lo': "(2::rat) powi (bitlen q - 1) \<le> of_int q"
  proof -
    have "(2::rat) powi (bitlen q - 1) = of_int (2 ^ nat (bitlen q - 1))"
      using bq by (simp add: power_int_def)
    also have "\<dots> \<le> of_int q" using lo by (simp only: of_int_le_iff)
    finally show ?thesis .
  qed
  have up: "x < 2 powi (bitlen p - bitlen q + 1)"
  proof -
    have d: "(2::rat) powi (bitlen p - (bitlen q - 1)) = 2 powi bitlen p / 2 powi (bitlen q - 1)"
      by (rule power_int_diff) simp
    have "of_int p / of_int q < (2::rat) powi bitlen p / 2 powi (bitlen q - 1)"
      using hi' lo' q p by (intro frac_less) auto
    then have main: "of_int p / of_int q < (2::rat) powi (bitlen p - (bitlen q - 1))"
      unfolding d .
    have eq: "bitlen p - bitlen q + 1 = bitlen p - (bitlen q - 1)" by simp
    show ?thesis unfolding eq x by (rule main)
  qed
  show ?thesis
  proof (cases "2 powi (bitlen p - bitlen q) \<le> x")
    case True
    with pq up show ?thesis by (simp add: ilog2_def Let_def)
  next
    case False
    with pq show ?thesis by (simp add: ilog2_def Let_def)
  qed
qed

lemma rd_error: "\<bar>rd x - x\<bar> \<le> \<bar>x\<bar> / 2 ^ 53"
proof (cases "x = 0")
  case True
  then show ?thesis by (simp add: rd_def)
next
  case False
  define e where "e = ilog2 \<bar>x\<bar> - 52"
  define s :: rat where "s = 2 powi e"
  have s: "0 < s" by (simp add: s_def)
  have rdx: "rd x = of_int (py_round (x / s)) * s"
    using False by (simp add: rd_def e_def s_def Let_def)
  have "\<bar>rd x - x\<bar> = \<bar>of_int (py_round (x / s)) - x / s\<bar> * s"
  proof -
    have "rd x - x = (of_int (py_round (x / s)) - x / s) * s" using s by (simp add: rdx algebra_simps)
    then show ?thesis using s by (simp add: abs_mult)
  qed
  also have "\<dots> \<le> (1 / 2) * s" using py_round_error [of "x / s"] s by (intro mult_right_mono) auto
  also have "\<dots> = 2 powi ilog2 \<bar>x\<bar> / 2 ^ 53"
  proof -
    have "s = 2 powi ilog2 \<bar>x\<bar> / 2 powi 52" by (simp add: s_def e_def power_int_diff)
    then show ?thesis by simp
  qed
  also have "\<dots> \<le> \<bar>x\<bar> / 2 ^ 53" using ilog2_le [of "\<bar>x\<bar>"] False
    by (intro divide_right_mono) auto
  finally show ?thesis .
qed

lemma rd_nonneg: "0 \<le> x \<Longrightarrow> 0 \<le> rd x"
  by (auto simp: rd_def Let_def intro!: mult_nonneg_nonneg py_round_nonneg divide_nonneg_nonneg)

lemma rd_tenth: "rd (1 / 10) = 3602879701896397 / 36028797018963968"
  by code_simp

lemma rd_upper: "0 \<le> x \<Longrightarrow> rd x \<le> x * (1 + 1 / 2 ^ 53)"
  using rd_error [of x] by (simp add: algebra_simps abs_if split: if_splits)

lemma product_error:
  fixes a b A B C u x :: rat
  assumes a: "0 \<le> a" and b: "0 \<le> b" and u: "0 \<le> u" "u \<le> 1 / 4"
    and A: "\<bar>A - a\<bar> \<le> a * u" and B: "\<bar>B - b\<bar> \<le> b * u"
    and C: "\<bar>C - A * B\<bar> \<le> \<bar>A * B\<bar> * u"
  shows "\<bar>C - a * b\<bar> \<le> 4 * (a * b) * u"
proof -
  have au: "a * u \<le> a * (1 / 4)" using a u by (intro mult_left_mono) auto
  have bu: "b * u \<le> b * (1 / 4)" using b u by (intro mult_left_mono) auto
  from A a au have A0: "0 \<le> A" by (simp add: abs_if split: if_splits) linarith?
  from A have A1: "A \<le> a * (1 + u)" by (simp add: abs_if algebra_simps split: if_splits)
  from B b bu have B0: "0 \<le> B" by (simp add: abs_if split: if_splits) linarith?
  from B have B1: "B \<le> b * (1 + u)" by (simp add: abs_if algebra_simps split: if_splits)
  have ab: "0 \<le> a * b" using a b by simp
  have AB: "A * B \<le> (a * (1 + u)) * (b * (1 + u))"
    using A0 B0 A1 B1 a b u by (intro mult_mono) auto
  have "\<bar>A * B - a * b\<bar> = \<bar>A * (B - b) + (A - a) * b\<bar>" by (simp add: algebra_simps)
  also have "\<dots> \<le> \<bar>A * (B - b)\<bar> + \<bar>(A - a) * b\<bar>" by (rule abs_triangle_ineq)
  also have "\<dots> = A * \<bar>B - b\<bar> + \<bar>A - a\<bar> * b" using A0 b by (simp add: abs_mult)
  also have "\<dots> \<le> (a * (1 + u)) * (b * u) + (a * u) * b"
    using A0 A1 B A b a u by (intro add_mono mult_mono) auto
  finally have d1: "\<bar>A * B - a * b\<bar> \<le> (a * (1 + u)) * (b * u) + (a * u) * b" .
  have "\<bar>C - a * b\<bar> \<le> \<bar>C - A * B\<bar> + \<bar>A * B - a * b\<bar>" by simp
  also have "\<dots> \<le> (A * B) * u + ((a * (1 + u)) * (b * u) + (a * u) * b)"
    using C d1 A0 B0 by (simp add: abs_mult)
  also have "\<dots> \<le> ((a * (1 + u)) * (b * (1 + u))) * u + ((a * (1 + u)) * (b * u) + (a * u) * b)"
  proof -
    have "(A * B) * u \<le> ((a * (1 + u)) * (b * (1 + u))) * u"
      using AB u(1) by (rule mult_right_mono)
    then show ?thesis by simp
  qed
  also have "\<dots> = (a * b) * u * ((1 + u) * (1 + u) + (1 + u) + 1)" by (simp add: algebra_simps)
  also have "\<dots> \<le> (a * b) * u * 4"
  proof -
    have "(1 + u) * (1 + u) \<le> (1 + 1 / 4) * (1 + 1 / 4)" using u by (intro mult_mono) auto
    then have "(1 + u) * (1 + u) + (1 + u) + 1 \<le> 4" using u by simp
    with ab u show ?thesis by (intro mult_left_mono) auto
  qed
  finally show ?thesis by (simp add: algebra_simps)
qed

lemma eta_seconds_close:
  assumes p: "rd (1 / 10) \<le> p" "p \<le> 100" and e: "0 \<le> e"
    and bound: "e * (100 - p) / p \<le> 2 ^ 50"
  shows "\<bar>py_int (fl_mul (fl_div e p) (fl_sub 100 p)) - \<lfloor>e * (100 - p) / p\<rfloor>\<bar> \<le> 1"
proof -
  define u :: rat where "u = 1 / 2 ^ 53"
  define a where "a = e / p"
  define b where "b = 100 - p"
  define A where "A = rd a"
  define B where "B = rd b"
  define C where "C = rd (A * B)"
  from p(1) have p0: "0 < p" by (simp add: rd_tenth)
  have a: "0 \<le> a" using e p0 by (simp add: a_def)
  have b: "0 \<le> b" using p(2) by (simp add: b_def)
  have x: "e * (100 - p) / p = a * b" by (simp add: a_def b_def)
  have u: "0 \<le> u" "u \<le> 1 / 4" by (simp_all add: u_def)
  have EA: "\<bar>A - a\<bar> \<le> a * u" using rd_error [of a] a by (simp add: A_def u_def)
  have EB: "\<bar>B - b\<bar> \<le> b * u" using rd_error [of b] b by (simp add: B_def u_def)
  have EC: "\<bar>C - A * B\<bar> \<le> \<bar>A * B\<bar> * u" using rd_error [of "A * B"] by (simp add: C_def u_def)
  from product_error [OF a b u EA EB EC] have "\<bar>C - a * b\<bar> \<le> 4 * (a * b) * u" .
  also have "\<dots> \<le> 4 * 2 ^ 50 * u" using bound u by (simp add: x mult_right_mono)
  also have "\<dots> = 1 / 2" by (simp add: u_def)
  finally have close: "\<bar>C - a * b\<bar> \<le> 1 / 2" .
  have C0: "0 \<le> C" unfolding C_def A_def B_def using a b by (intro rd_nonneg mult_nonneg_nonneg)
  have val: "fl_mul (fl_div e p) (fl_sub 100 p) = C"
    by (simp add: fl_mul_def fl_div_def fl_sub_def C_def A_def B_def a_def b_def)
  have "py_int C = \<lfloor>C\<rfloor>" using C0 by (simp add: py_int_def)
  moreover have "\<bar>\<lfloor>C\<rfloor> - \<lfloor>a * b\<rfloor>\<bar> \<le> 1" using close by (simp add: abs_if split: if_splits) linarith+
  ultimately show ?thesis by (simp add: val x)
qed

lemma fl_sub_self: "fl_sub x x = 0"
  by (simp add: fl_sub_def rd_def)

lemma percents_le: "percents c t \<le> 100"
  by (simp add: percents_def)

lemma eta_str_unclamped:
  assumes "rd (1 / 10) \<le> percents c t"
  shows "eta_str c t e =
     format_time (py_int (fl_mul (fl_div e (percents c t)) (fl_sub 100 (percents c t))))"
proof -
  from assms have pos: "0 < percents c t" by (simp add: rd_tenth)
  from assms have "max (percents c t) (rd (1 / 10)) = percents c t" by (simp add: max_def)
  with pos show ?thesis by (simp add: eta_str_def Let_def)
qed

lemma eta_str_clamped:
  assumes "0 < percents c t" and "percents c t < rd (1 / 10)"
  shows "eta_str c t e =
     format_time (py_int (fl_mul (fl_div e (rd (1 / 10))) (fl_sub 100 (percents c t))))"
proof -
  from assms(2) have "max (percents c t) (rd (1 / 10)) = rd (1 / 10)" by (simp add: max_def)
  with assms(1) show ?thesis by (simp add: eta_str_def Let_def)
qed

lemma eta_part_omitted: "percents c t \<le> 0 \<Longrightarrow> eta_part c t e = []"
  by (simp add: eta_part_def eta_str_def Let_def)

lemma eta_str_close:
  assumes "rd (1 / 10) \<le> percents c t" and "0 \<le> e"
    and "e * (100 - percents c t) / percents c t \<le> 2 ^ 50"
  shows "\<exists>n. eta_str c t e = format_time n
           \<and> \<bar>n - \<lfloor>e * (100 - percents c t) / percents c t\<rfloor>\<bar> \<le> 1"
  using eta_str_unclamped [OF assms(1)] eta_seconds_close [OF assms(1) percents_le assms(2,3)]
  by blast

text \<open>
  C9. The elapsed-time text of the progress line is \<open>1m 30s\<close> for 90 seconds, \<open>1s\<close> for
  0 seconds (where \<open>_format_time\<close> itself gives the empty string) and \<open>1d 1m 1s\<close> for
  86461 seconds.
\<close>

theorem elapsed_str_examples:
  "elapsed_str 90 = ''1m 30s'' \<and> elapsed_str 0 = ''1s'' \<and> elapsed_str 86461 = ''1d 1m 1s''
   \<and> format_time 90 = ''1m 30s'' \<and> format_time 0 = [] \<and> format_time 86461 = ''1d 1m 1s''"
  by code_simp

text \<open>
  C8. The counts at the end of the progress line are not capped: the conditional of the
  source chooses between \<open>total_count\<close> and \<open>total_count\<close>, and \<open>current_count\<close> is
  printed as it is. With \<open>current_count = 7\<close>, \<open>total_count = 5\<close> and 3 seconds
  elapsed the line ends in \<open>(7/5)\<close>, where capping would give \<open>(5/5)\<close>.
\<close>

theorem counts_not_capped:
  "log_progress 7 5 3 None =
     Some ([CHR 0x0D] @ ''100.0% |'' @ replicate 70 CHR ''#'' @ ''| elapsed: 3s (7/5)'')
   \<and> counts_part 7 5 = ''(7/5)''"
  by code_simp

text \<open>
  C7 as stated fails, in two ways. With \<open>current_count = 1\<close>, \<open>total_count = 2048\<close> and
  one second elapsed the percentage is \<open>100 / 2048\<close>, positive and below \<open>0.1\<close>; the
  source divides by \<open>max(percents, 0.1)\<close> and renders 999 seconds, where
  \<open>elapsed * (100 - percent) / percent\<close> is 2047 seconds. With \<open>current_count = 1\<close>,
  \<open>total_count = 2\<close> and 29 seconds elapsed the percentage is 50 and the formula gives
  29 seconds; the source divides first, \<open>29.0 / 50.0\<close> is rounded down to the nearest
  double, the product with \<open>50.0\<close> is just below 29, and 28 seconds are rendered.
\<close>

theorem eta_clamp_counterexample:
  "0 < percents 1 2048
   \<and> eta_str 1 2048 1 = ''16m 39s''
   \<and> format_time (py_int (1 * (100 - percents 1 2048) / percents 1 2048)) = ''34m 7s''
   \<and> percents 1 2 = 50
   \<and> eta_str 1 2 29 = ''28s''
   \<and> format_time (py_int (29 * (100 - percents 1 2) / percents 1 2)) = ''29s''"
  by code_simp

text \<open>
  C7, amended. For \<open>total_count > 0\<close>, with counts and elapsed time below \<open>2 ^ 1000\<close> in
  magnitude, where no double overflows, the line carries the segment \<open>eta_part\<close> between
  the elapsed time and the counts. The estimate is
  \<open>(elapsed / max(percent, 0.1)) * (100 - percent)\<close>, each of the three operations rounded
  to a double, truncated to whole seconds and formatted. Where the percentage is at least
  \<open>0.1\<close> the divisor is the percentage, and for an elapsed time that is not negative the
  whole seconds rendered differ by at most one from those of
  \<open>elapsed * (100 - percent) / percent\<close> (up to \<open>2 ^ 50\<close> seconds); where the percentage
  is positive and below \<open>0.1\<close> the divisor is \<open>0.1\<close>; the segment is empty where the
  percentage is not positive, and wherever the formatted estimate is empty (an estimate of
  zero seconds).
\<close>

theorem eta_rendering:
  assumes "0 < total_count" and "total_count < 2 ^ 1000" and "\<bar>c\<bar> < 2 ^ 1000"
    and "\<bar>e\<bar> < 2 ^ 1000"
  shows "log_progress c total_count e title =
           Some ([CHR 0x0D] @ title_part title @ fmt_1f (percents c total_count) @ ''% |''
                 @ bar c total_count @ ''| '' @ ''elapsed: '' @ elapsed_str e
                 @ eta_part c total_count e @ '' '' @ counts_part c total_count)
         \<and> eta_part c total_count e =
             (if eta_str c total_count e = [] then [] else '' eta: '' @ eta_str c total_count e)
         \<and> (rd (1 / 10) \<le> percents c total_count \<longrightarrow>
               eta_str c total_count e =
                 format_time (py_int (fl_mul (fl_div e (percents c total_count))
                                             (fl_sub 100 (percents c total_count)))))
         \<and> (rd (1 / 10) \<le> percents c total_count \<and> 0 \<le> e
               \<and> e * (100 - percents c total_count) / percents c total_count \<le> 2 ^ 50 \<longrightarrow>
               (\<exists>n. eta_str c total_count e = format_time n
                  \<and> \<bar>n - \<lfloor>e * (100 - percents c total_count) / percents c total_count\<rfloor>\<bar> \<le> 1))
         \<and> (0 < percents c total_count \<and> percents c total_count < rd (1 / 10) \<longrightarrow>
               eta_str c total_count e =
                 format_time (py_int (fl_mul (fl_div e (rd (1 / 10)))
                                             (fl_sub 100 (percents c total_count)))))
         \<and> (percents c total_count \<le> 0 \<longrightarrow> eta_part c total_count e = [])"
proof -
  have "eta_part c total_count e =
          (if eta_str c total_count e = [] then [] else '' eta: '' @ eta_str c total_count e)"
    by (simp add: eta_part_def Let_def)
  then show ?thesis
    using log_progress_line [OF assms(1)] eta_str_unclamped eta_str_clamped eta_part_omitted
      eta_str_close
    by blast
qed

theorem eta_rendering_witness:
  "(0::int) < 5 \<and> (5::int) < 2 ^ 1000 \<and> \<bar>2::int\<bar> < 2 ^ 1000 \<and> \<bar>7 / 2 :: rat\<bar> < 2 ^ 1000
   \<and> rd (1 / 10) \<le> percents 2 5 \<and> (0::rat) \<le> 7 / 2
   \<and> (7 / 2) * (100 - percents 2 5) / percents 2 5 \<le> 2 ^ 50
   \<and> eta_str 2 5 (7 / 2) =
       format_time (py_int (fl_mul (fl_div (7 / 2) (percents 2 5)) (fl_sub 100 (percents 2 5))))
   \<and> (\<exists>n. eta_str 2 5 (7 / 2) = format_time n
          \<and> \<bar>n - \<lfloor>(7 / 2) * (100 - percents 2 5) / percents 2 5\<rfloor>\<bar> \<le> 1)
   \<and> eta_str 2 5 (7 / 2) = ''5s''
   \<and> eta_part 2 5 (7 / 2) = '' eta: 5s''"
proof -
  have h: "(0::int) < 5" "(5::int) < 2 ^ 1000" "\<bar>2::int\<bar> < 2 ^ 1000" "\<bar>7 / 2 :: rat\<bar> < 2 ^ 1000"
    by simp_all
  have pv: "percents 2 5 = 40" by code_simp
  have p: "rd (1 / 10) \<le> percents 2 5" by (simp add: pv rd_tenth)
  have e0: "(0::rat) \<le> 7 / 2" by simp
  have b: "(7 / 2) * (100 - percents 2 5) / percents 2 5 \<le> 2 ^ 50" by (simp add: pv)
  have v: "eta_str 2 5 (7 / 2) = ''5s''" by code_simp
  have ep: "eta_part 2 5 (7 / 2) = '' eta: 5s''" by code_simp
  note t = eta_rendering [OF h, of None]
  from t p have c3: "eta_str 2 5 (7 / 2) =
       format_time (py_int (fl_mul (fl_div (7 / 2) (percents 2 5)) (fl_sub 100 (percents 2 5))))"
    by blast
  from t p e0 b have c4: "\<exists>n. eta_str 2 5 (7 / 2) = format_time n
          \<and> \<bar>n - \<lfloor>(7 / 2) * (100 - percents 2 5) / percents 2 5\<rfloor>\<bar> \<le> 1"
    by blast
  from h p e0 b c3 c4 v ep show ?thesis by blast
qed

section \<open>Properties of the retry policy\<close>

lemma retry_loop_returns:
  assumes "func (world s) = (Inr v, w)"
  shows "retry_loop m r f a func n s = (Inr v, s\<lparr>world := w, events := events s @ [Called f a]\<rparr>)"
  using assms by (simp add: retry_loop.simps [of m r f a func n s] attempt_def)

lemma retry_loop_permission:
  assumes "func (world s) = (Inl ex, w)" and "is_permission ex"
  shows "retry_loop m r f a func n s = (Inl ex, s\<lparr>world := w, events := events s @ [Called f a]\<rparr>)"
  using assms by (simp add: retry_loop.simps [of m r f a func n s] attempt_def)

lemma retry_loop_raises_permission:
  "retry_loop m False f a func n s = (Inl ex, s') \<Longrightarrow> is_permission ex"
proof (induction m "False" f a func n s rule: retry_loop.induct)
  case (1 m f a func n s)
  show ?case
  proof (cases "attempt f a func s")
    case (Pair r s1)
    show ?thesis
    proof (cases r)
      case (Inr v)
      with Pair "1.prems" show ?thesis by (simp add: retry_loop.simps [of m False f a func n s])
    next
      case (Inl ex1)
      show ?thesis
      proof (cases "is_permission ex1")
        case True
        with Pair Inl "1.prems" show ?thesis by (simp add: retry_loop.simps [of m False f a func n s])
      next
        case np: False
        show ?thesis
        proof (cases "m \<le> n")
          case True
          with Pair Inl np "1.prems" show ?thesis
            by (simp add: retry_loop.simps [of m False f a func n s] log_retry_error_def Let_def)
        next
          case False
          with Pair Inl np "1.prems" "1.hyps" show ?thesis
            by (simp add: retry_loop.simps [of m False f a func n s])
        qed
      qed
    qed
  qed
qed

lemma retry_loop_exhausts:
  assumes always: "\<forall>w. \<exists>ex w'. func w = (Inl ex, w') \<and> \<not> is_permission ex"
  shows "\<exists>ex s' evs. retry_loop m True f a func n s = (Inl ex, s')
           \<and> \<not> is_permission ex
           \<and> (\<exists>w. func w = (Inl ex, world s'))
           \<and> events s' = events s @ evs
           \<and> int (length (filter is_call evs)) = max 1 (m - n + 1)
           \<and> last evs = Logged ERROR (OperationFailed (max n m) f a ex)
           \<and> length (filter (is_log ERROR) evs) = 1"
  using always
proof (induction m "True" f a func n s rule: retry_loop.induct)
  case (1 m f a func n s)
  note always = "1.prems"
  from always obtain ex w' where f: "func (world s) = (Inl ex, w')" and np: "\<not> is_permission ex"
    by blast
  let ?s1 = "s\<lparr>world := w', events := events s @ [Called f a]\<rparr>"
  have att: "attempt f a func s = (Inl ex, ?s1)" using f by (simp add: attempt_def)
  show ?case
  proof (cases "m \<le> n")
    case True
    have "retry_loop m True f a func n s
            = (Inl ex, emit (Logged ERROR (OperationFailed n f a ex)) ?s1)"
      using att np True by (simp add: retry_loop.simps [of m True f a func n s] log_retry_error_def)
    moreover have "max n m = n" "max 1 (m - n + 1) = 1" using True by simp_all
    ultimately show ?thesis using np f
      apply (intro exI [of _ ex] exI [of _ "emit (Logged ERROR (OperationFailed n f a ex)) ?s1"]
          exI [of _ "[Called f a, Logged ERROR (OperationFailed n f a ex)]"])
      apply (simp add: emit_def)
      apply (rule exI [of _ "world s"])
      apply simp
      done
  next
    case False
    let ?s2 = "emit (Slept (wait_exponential n))
                 (emit (Logged WARNING (Retrying f (wait_exponential n) ex)) ?s1)"
    have unf: "retry_loop m True f a func n s = retry_loop m True f a func (n + 1) ?s2"
      using att np False by (simp add: retry_loop.simps [of m True f a func n s])
    from "1.hyps" [OF att [symmetric] refl np False always]
    obtain ex' s' evs where
      r: "retry_loop m True f a func (n + 1) ?s2 = (Inl ex', s')" and
      np': "\<not> is_permission ex'" and
      fin: "\<exists>w. func w = (Inl ex', world s')" and
      ev: "events s' = events ?s2 @ evs" and
      cnt: "int (length (filter is_call evs)) = max 1 (m - (n + 1) + 1)" and
      lst: "last evs = Logged ERROR (OperationFailed (max (n + 1) m) f a ex')" and
      errs: "length (filter (is_log ERROR) evs) = 1"
      by blast
    from errs have ne: "evs \<noteq> []" by auto
    let ?evs = "[Called f a, Logged WARNING (Retrying f (wait_exponential n) ex),
                 Slept (wait_exponential n)] @ evs"
    have "events s' = events s @ ?evs" using ev by (simp add: emit_def)
    moreover have "int (length (filter is_call ?evs)) = max 1 (m - n + 1)"
      using cnt False by simp
    moreover have "last ?evs = Logged ERROR (OperationFailed (max n m) f a ex')"
      using lst ne False by (simp add: max_def)
    moreover have "length (filter (is_log ERROR) ?evs) = 1" using errs by simp
    ultimately show ?thesis using unf r np' fin by metis
  qed
qed

text \<open>
  C1. A function whose only attempt raises \<open>ApiPermissionError\<close>, wrapped with the
  defaults: it is called once and not again, but nothing is logged and the exception is
  raised to the caller, where the claim has a warning and the result \<open>None\<close>. The
  callback that holds the warning is never reached for this class of exception.
\<close>

theorem permission_error_raised:
  "with_retry 5 False ''cql'' ([], []) denied_call init =
     (Inl (Exn ApiPermissionError ''forbidden''),
      \<lparr>world = (), events = [Called ''cql'' ([], [])]\<rparr>)"
  by (simp add: with_retry_def retry_loop.simps attempt_def denied_call_def init_def
      is_permission_def)

text \<open>
  C6. A function that raises an exception other than \<open>ApiPermissionError\<close> at every
  attempt, wrapped with \<open>reraise=True\<close> and a \<open>max_retries\<close> of at least 1: the call
  raises the exception of the last attempt; the function has been called exactly
  \<open>max_retries\<close> times; one record of level \<open>ERROR\<close> is logged, as the last thing that
  happens, with the number of attempts, the arguments and the exception with its
  traceback.
\<close>

theorem exhausted_reraises:
  assumes "\<forall>w. \<exists>ex w'. func w = (Inl ex, w') \<and> \<not> is_permission ex" and "1 \<le> max_retries"
  shows "\<exists>ex s' evs. with_retry max_retries True fname args func s = (Inl ex, s')
           \<and> \<not> is_permission ex
           \<and> (\<exists>w. func w = (Inl ex, world s'))
           \<and> events s' = events s @ evs
           \<and> int (length (filter is_call evs)) = max_retries
           \<and> last evs = Logged ERROR (OperationFailed max_retries fname args ex)
           \<and> length (filter (is_log ERROR) evs) = 1"
  using retry_loop_exhausts [OF assms(1), of max_retries fname args 1 s] assms(2)
  by (simp add: with_retry_def max_def)

theorem exhausted_reraises_witness:
  "(\<forall>w. \<exists>ex w'. failing_call w = (Inl ex, w') \<and> \<not> is_permission ex) \<and> (1::int) \<le> 5
   \<and> (\<exists>ex s' evs. with_retry 5 True ''cql'' ([], []) failing_call init = (Inl ex, s')
         \<and> events s' = events init @ evs
         \<and> int (length (filter is_call evs)) = 5
         \<and> last evs = Logged ERROR (OperationFailed 5 ''cql'' ([], []) ex))"
proof -
  have h: "\<forall>w. \<exists>ex w'. failing_call w = (Inl ex, w') \<and> \<not> is_permission ex"
    by (simp add: failing_call_def is_permission_def)
  have m: "(1::int) \<le> 5" by simp
  from exhausted_reraises [OF h m, of "''cql''" "([], [])" init] h show ?thesis
    by auto
qed

section \<open>Properties of the paginated fetcher\<close>

lemma loop_body_cases:
  "loop_body e k tot t0 (pages, start, s) =
     (case wrapped_pages e k start s of
        (Inl ex, s1) \<Rightarrow> Inl (Inl ex, s1)
      | (Inr None, s1) \<Rightarrow> Inl (Inr pages, s1)
      | (Inr (Some pd), s1) \<Rightarrow>
          if pd = [] then Inl (Inr pages, s1)
          else Inr (pages @ pd, start + length pd,
                 write_progress (int (length (pages @ pd))) tot (fl_sub (perf_counter e s1) t0)
                   (download_title k) s1))"
  by (simp add: loop_body_def Let_def split: prod.splits sum.splits option.splits)

lemma loop_body_continues:
  assumes "loop_body e k tot t0 (pages, start, s) = Inr (pages', start', s')"
  shows "\<exists>pd s1. wrapped_pages e k start s = (Inr (Some pd), s1) \<and> pd \<noteq> []
           \<and> pages' = pages @ pd \<and> start' = start + length pd \<and> start < start'
           \<and> s' = write_progress (int (length pages')) tot (fl_sub (perf_counter e s1) t0)
                    (download_title k) s1"
  using assms
  by (auto simp: loop_body_cases split: prod.splits sum.splits option.splits if_splits)

lemma loop_body_breaks:
  "loop_body e k tot t0 (pages, start, s) = Inl (Inr r, s1) \<longleftrightarrow>
     r = pages \<and> (wrapped_pages e k start s = (Inr None, s1)
                  \<or> wrapped_pages e k start s = (Inr (Some []), s1))"
  by (auto simp: loop_body_cases split: prod.splits sum.splits option.splits if_splits)

lemma loop_body_raises:
  "loop_body e k tot t0 (pages, start, s) = Inl (Inl ex, s1) \<longleftrightarrow>
     wrapped_pages e k start s = (Inl ex, s1)"
  by (auto simp: loop_body_cases split: prod.splits sum.splits option.splits if_splits)

lemma loop_body_total_free:
  "isl (loop_body e k tot t0 x) = isl (loop_body e k tot' t0' x)"
  by (cases x) (auto simp: loop_body_cases split: prod.splits sum.splits option.splits if_splits)

lemma fetch_loop_passes:
  assumes "passes e k tot t0 n x = Some x'" and "loop_body e k tot t0 x' = Inl r"
  shows "fetch_loop e k tot t0 x = Some r"
  using assms
proof (induction n arbitrary: x)
  case 0
  then show ?case by (simp add: fetch_loop.simps)
next
  case (Suc n)
  from Suc.prems(1) obtain y where y: "loop_body e k tot t0 x = Inr y"
    and p: "passes e k tot t0 n y = Some x'"
    by (auto split: sum.splits)
  from Suc.IH [OF p Suc.prems(2)] y show ?case by (simp add: fetch_loop.simps [of e k tot t0 x])
qed

lemma fetch_loop_stops:
  fixes e :: "('w, 'p) env"
  assumes ret: "fetch_loop e k tot t0 x = Some r"
  shows "\<exists>n x'. passes e k tot t0 n x = Some x' \<and> loop_body e k tot t0 x' = Inl r"
proof (rule fetch_loop.raw_induct [where xa = "((((e, k), tot), t0), x)" and y = r
      and P = "\<lambda>e k tot t0 x r.
        \<exists>n x'. passes e k tot t0 n x = Some x' \<and> loop_body e k tot t0 x' = Inl r",
      unfolded prod.case])
  show "fetch_loop e k tot t0 x = Some r" by (rule ret)
next
  fix f and e :: "('w, 'p) env" and k tot t0 x r
  assume IH: "\<And>e k tot t0 x r. f e k tot t0 x = Some r \<Longrightarrow>
      \<exists>n x'. passes e k tot t0 n x = Some x' \<and> loop_body e k tot t0 x' = Inl r"
    and eq: "(case loop_body e k tot t0 x of Inl r \<Rightarrow> Some r | Inr x' \<Rightarrow> f e k tot t0 x') = Some r"
  show "\<exists>n x'. passes e k tot t0 n x = Some x' \<and> loop_body e k tot t0 x' = Inl r"
  proof (cases "loop_body e k tot t0 x")
    case (Inl r')
    with eq have "r' = r" by simp
    with Inl have "passes e k tot t0 0 x = Some x \<and> loop_body e k tot t0 x = Inl r" by simp
    then show ?thesis by blast
  next
    case (Inr y)
    with eq have "f e k tot t0 y = Some r" by simp
    from IH [OF this] obtain n x' where "passes e k tot t0 n y = Some x'"
      and "loop_body e k tot t0 x' = Inl r" by blast
    with Inr have "passes e k tot t0 (Suc n) x = Some x' \<and> loop_body e k tot t0 x' = Inl r"
      by simp
    then show ?thesis by blast
  qed
qed

lemma passes_offset:
  assumes "passes e k tot t0 n (pages, start, s) = Some (pages', start', s')"
  shows "\<exists>ps. pages' = pages @ ps \<and> start' = start + length ps \<and> n \<le> length ps"
  using assms
proof (induction n arbitrary: pages start s)
  case 0
  then show ?case by simp
next
  case (Suc n)
  from Suc.prems obtain y where y: "loop_body e k tot t0 (pages, start, s) = Inr y"
    and p: "passes e k tot t0 n y = Some (pages', start', s')"
    by (auto split: sum.splits)
  obtain p1 st1 s1 where y_eq: "y = (p1, st1, s1)" by (cases y) auto
  from loop_body_continues [OF y [unfolded y_eq]] obtain pd where
    pd: "pd \<noteq> []" "p1 = pages @ pd" "st1 = start + length pd" by blast
  from Suc.IH [OF p [unfolded y_eq]] obtain ps where
    ps: "pages' = p1 @ ps" "start' = st1 + length ps" "n \<le> length ps" by blast
  from pd ps have "pages' = pages @ (pd @ ps) \<and> start' = start + length (pd @ ps)
      \<and> Suc n \<le> length (pd @ ps)"
    by (cases pd) auto
  then show ?case by blast
qed

lemma wrapped_pages_returns:
  assumes "get_all_pages_from_space e k start limit (world s) = (Inr v, w)"
  shows "wrapped_pages e k start s =
     (Inr v, s\<lparr>world := w, events := events s @ [Called ''get_all_pages_from_space'' (page_args k start)]\<rparr>)"
  using assms by (simp add: wrapped_pages_def with_retry_def retry_loop_returns)

lemma get_page_count_returns:
  assumes "cql e (cql_query k) (world s) = (Inr (Some d), w)"
  shows "get_page_count e k s =
     (Inr (d ''totalSize''), s\<lparr>world := w, events := events s @ [Called ''cql'' (cql_args k)]\<rparr>)"
  using assms by (simp add: get_page_count_def with_retry_def retry_loop_returns)

lemma wrapped_pages_raises: "wrapped_pages e k start s = (Inl ex, s1) \<Longrightarrow> is_permission ex"
  unfolding wrapped_pages_def with_retry_def by (rule retry_loop_raises_permission)

lemma fetch_loop_raises:
  assumes "fetch_loop e k tot t0 x = Some (Inl ex, s1)"
  shows "is_permission ex"
proof -
  from fetch_loop_stops [OF assms] obtain n x' where
    "loop_body e k tot t0 x' = Inl (Inl ex, s1)" by blast
  then have "\<exists>st s. wrapped_pages e k st s = (Inl ex, s1)"
    by (cases x') (auto simp: loop_body_raises)
  then show ?thesis by (blast dest: wrapped_pages_raises)
qed

lemma get_page_count_raises:
  assumes "get_page_count e k s = (Inl ex, s1)"
  shows "is_Exception ex"
proof (cases "with_retry 5 False ''cql'' (cql_args k) (cql e (cql_query k)) s")
  case (Pair r s')
  show ?thesis
  proof (cases r)
    case (Inl ex')
    with Pair assms have "ex' = ex" by (simp add: get_page_count_def)
    with Pair Inl have "is_permission ex"
      by (auto simp: with_retry_def dest: retry_loop_raises_permission)
    then show ?thesis by (simp add: is_permission_def is_Exception_def)
  next
    case (Inr v)
    with Pair assms show ?thesis
      by (cases v) (auto simp: get_page_count_def is_Exception_def)
  qed
qed

lemma download_space_body_raises:
  assumes "download_space_body e k s = Some (Inl ex, s1)"
  shows "is_Exception ex"
proof (cases "get_page_count e k s")
  case (Pair r s')
  show ?thesis
  proof (cases r)
    case (Inl ex')
    with Pair assms have "ex' = ex" by (simp add: download_space_body_def)
    with Pair Inl show ?thesis by (auto dest: get_page_count_raises)
  next
    case (Inr pc)
    show ?thesis
    proof (cases "pc = None \<or> pc = Some 0")
      case True
      with Pair Inr assms show ?thesis by (auto simp: download_space_body_def)
    next
      case False
      then obtain n where n: "pc = Some n" "n \<noteq> 0" by auto
      with Pair Inr assms have "fetch_loop e k n (perf_counter e s) ([], 0, s') = Some (Inl ex, s1)"
        by (auto simp: download_space_body_def Let_def split: option.splits sum.splits prod.splits)
      then have "is_permission ex" by (rule fetch_loop_raises)
      then show ?thesis by (simp add: is_permission_def is_Exception_def)
    qed
  qed
qed

lemma write_progress_emits:
  "0 < tot \<Longrightarrow>
     write_progress c tot x title s = emit (Wrote (progress_line c tot x (Some title))) s"
  by (simp add: write_progress_def log_progress_def)

lemma passes_snoc:
  assumes "passes e k tot t0 n x = Some y" and "loop_body e k tot t0 y = Inr z"
  shows "passes e k tot t0 (Suc n) x = Some z"
  using assms
proof (induction n arbitrary: x)
  case 0
  then show ?case by simp
next
  case (Suc n)
  from Suc.prems(1) obtain x1 where x1: "loop_body e k tot t0 x = Inr x1"
    and p: "passes e k tot t0 n x1 = Some y"
    by (auto split: sum.splits)
  from Suc.IH [OF p Suc.prems(2)] have "passes e k tot t0 (Suc n) x1 = Some z" .
  with x1 show ?case by (simp del: passes.simps(2) add: passes.simps(2) [of e k tot t0 "Suc n" x])
qed

lemma download_space_never_raises: "download_space e k s \<noteq> Some (Inl ex, s')"
  by (auto simp: download_space_def split: option.splits sum.splits prod.splits if_splits
      dest: download_space_body_raises)

lemma download_space_catches:
  assumes "download_space_body e k s = Some (Inl ex, s1)"
  shows "download_space e k s = Some (Inr None, emit (Logged ERROR (FailedToDownload k ex)) s1)"
  using assms download_space_body_raises [OF assms] by (simp add: download_space_def)

text \<open>
  C2 as stated fails. On the service of the claim, with the pages \<open>a\<close> to \<open>e\<close>, the space
  \<open>K\<close> and a clock that stands still, the progress reporter writes three times, for 2, 4
  and 5 of 5 pages, and not a fourth time.
\<close>

theorem progress_reports_counterexample:
  "written (events_of (download_space (trace_env ''a'' ''b'' ''c'' ''d'' ''e'' still_clock) ''K'' init))
     = [progress_line 2 5 0 (Some (download_title ''K'')),
        progress_line 4 5 0 (Some (download_title ''K'')),
        progress_line 5 5 0 (Some (download_title ''K''))]
   \<and> length (written (events_of
         (download_space (trace_env ''a'' ''b'' ''c'' ''d'' ''e'' still_clock) ''K'' init))) = 3"
  by code_simp

text \<open>
  C2, amended. On the service of the claim, for any pages \<open>a\<close> to \<open>e\<close>, any space and any
  clock, \<open>download_space\<close> returns \<open>[a, b, c, d, e]\<close>. Everything that happens is: the
  count, then the page calls at the offsets 0, 2, 4 and 5, each of the first three followed
  by one progress line, for 2, 4 and 5 of 5 pages. The empty page of the fourth call ends
  the loop, with no progress line after it.
\<close>

theorem trace_run:
  "\<exists>x1 x2 x3. download_space (trace_env a b c d e' clock) k init =
     Some (Inr (Some [a, b, c, d, e']),
       \<lparr>world = (),
          events = [Called ''cql'' (cql_args k),
                    Called ''get_all_pages_from_space'' (page_args k 0),
                    Wrote (progress_line 2 5 x1 (Some (download_title k))),
                    Called ''get_all_pages_from_space'' (page_args k 2),
                    Wrote (progress_line 4 5 x2 (Some (download_title k))),
                    Called ''get_all_pages_from_space'' (page_args k 4),
                    Wrote (progress_line 5 5 x3 (Some (download_title k))),
                    Called ''get_all_pages_from_space'' (page_args k 5)]\<rparr>)"
  by (simp add: download_space_def download_space_body_def get_page_count_returns trace_env_def
      fetch_loop.simps loop_body_cases wrapped_pages_returns init_def Let_def
      write_progress_emits emit_def)
     (auto simp: eval_nat_numeral)

text \<open>
  C3 as stated fails. On a service that counts two pages and returns \<open>[a, b]\<close> at offset
  0, \<open>[c]\<close> at offset 2 and \<open>[]\<close> at offset 3, the accumulated pages reach the count
  after the first page, and the loop goes on: it asks for the offsets 2 and 3 and returns
  three pages.
\<close>

theorem total_reached_counterexample:
  "result_of (download_space over_env ''K'' init) = Some (Inr (Some [''a'', ''b'', ''c'']))
   \<and> calls_of ''cql'' (events_of (download_space over_env ''K'' init)) = [cql_args ''K'']
   \<and> calls_of ''get_all_pages_from_space'' (events_of (download_space over_env ''K'' init)) =
       [page_args ''K'' 0, page_args ''K'' 2, page_args ''K'' 3]"
  by code_simp

text \<open>
  C3, amended. After any number \<open>n\<close> of passes of the loop that went round again, from
  the offset 0 and no pages, the offset is the number of pages accumulated, and at least
  \<open>n\<close>. What the next retry-wrapped page call gives decides the next pass alone, whatever
  the count \<open>tot\<close> is: if it raises, the loop raises; if it gives \<open>None\<close> or an empty
  page, the loop ends there with the pages accumulated; if it gives a page that is not
  empty, the loop goes round again, with the page appended and the offset greater by the
  length of the page. And the loop never ends in another way: a run that ends has left the
  loop in some pass.
\<close>

theorem pagination_loop:
  assumes "passes e k tot t0 n ([], 0, s) = Some (pages, start, s')"
  shows "start = length pages \<and> n \<le> start
     \<and> (case wrapped_pages e k start s' of
          (Inl ex, s1) \<Rightarrow> fetch_loop e k tot t0 ([], 0, s) = Some (Inl ex, s1)
        | (Inr None, s1) \<Rightarrow> fetch_loop e k tot t0 ([], 0, s) = Some (Inr pages, s1)
        | (Inr (Some page_data), s1) \<Rightarrow>
            if page_data = [] then fetch_loop e k tot t0 ([], 0, s) = Some (Inr pages, s1)
            else start < start + length page_data
              \<and> passes e k tot t0 (Suc n) ([], 0, s) =
                  Some (pages @ page_data, start + length page_data,
                        write_progress (int (length (pages @ page_data))) tot
                          (fl_sub (perf_counter e s1) t0) (download_title k) s1))
     \<and> (\<forall>r. fetch_loop e k tot t0 ([], 0, s) = Some r \<longrightarrow>
           (\<exists>m x. passes e k tot t0 m ([], 0, s) = Some x \<and> loop_body e k tot t0 x = Inl r))"
proof -
  from passes_offset [OF assms] have inv: "start = length pages" "n \<le> start" by auto
  have next_pass:
    "case wrapped_pages e k start s' of
       (Inl ex, s1) \<Rightarrow> fetch_loop e k tot t0 ([], 0, s) = Some (Inl ex, s1)
     | (Inr None, s1) \<Rightarrow> fetch_loop e k tot t0 ([], 0, s) = Some (Inr pages, s1)
     | (Inr (Some page_data), s1) \<Rightarrow>
         if page_data = [] then fetch_loop e k tot t0 ([], 0, s) = Some (Inr pages, s1)
         else start < start + length page_data
           \<and> passes e k tot t0 (Suc n) ([], 0, s) =
               Some (pages @ page_data, start + length page_data,
                     write_progress (int (length (pages @ page_data))) tot
                       (fl_sub (perf_counter e s1) t0) (download_title k) s1)"
  proof (cases "loop_body e k tot t0 (pages, start, s')")
    case (Inl r)
    from fetch_loop_passes [OF assms Inl] have "fetch_loop e k tot t0 ([], 0, s) = Some r" .
    with Inl show ?thesis
      by (auto simp: loop_body_cases split: prod.splits sum.splits option.splits if_splits)
  next
    case (Inr z)
    from passes_snoc [OF assms Inr] have "passes e k tot t0 (Suc n) ([], 0, s) = Some z" .
    with Inr show ?thesis
      by (auto simp del: passes.simps simp: loop_body_cases
          split: prod.splits sum.splits option.splits if_splits)
  qed
  from inv next_pass show ?thesis by (blast dest: fetch_loop_stops)
qed

theorem pagination_loop_witness:
  "passes over_env ''K'' 2 0 1 ([], 0, init) =
     Some ([''a'', ''b''], 2,
           \<lparr>world = (),
              events = [Called ''get_all_pages_from_space'' (page_args ''K'' 0),
                        Wrote (progress_line 2 2 0 (Some (download_title ''K'')))]\<rparr>)
   \<and> passes over_env ''K'' 2 0 (Suc 1) ([], 0, init) =
     Some ([''a'', ''b'', ''c''], 3,
           \<lparr>world = (),
              events = [Called ''get_all_pages_from_space'' (page_args ''K'' 0),
                        Wrote (progress_line 2 2 0 (Some (download_title ''K''))),
                        Called ''get_all_pages_from_space'' (page_args ''K'' 2),
                        Wrote (progress_line 3 2 0 (Some (download_title ''K'')))]\<rparr>)"
proof -
  let ?s1 = "\<lparr>world = (),
               events = [Called ''get_all_pages_from_space'' (page_args ''K'' 0),
                         Wrote (progress_line 2 2 0 (Some (download_title ''K'')))]\<rparr>"
  have h: "passes over_env ''K'' 2 0 1 ([], 0, init) = Some ([''a'', ''b''], 2, ?s1)"
    by (simp add: loop_body_cases wrapped_pages_returns over_env_def init_def
        write_progress_emits emit_def still_clock_def fl_sub_self)
  have w: "wrapped_pages over_env ''K'' 2 ?s1 =
      (Inr (Some [''c'']), ?s1\<lparr>events := events ?s1
          @ [Called ''get_all_pages_from_space'' (page_args ''K'' 2)]\<rparr>)"
    by (simp add: wrapped_pages_returns over_env_def)
  have pc: "perf_counter over_env = still_clock" by (simp add: over_env_def)
  from pagination_loop [OF h]
  have nxt: "passes over_env ''K'' 2 0 (Suc 1) ([], 0, init) =
     Some ([''a'', ''b'', ''c''], 3,
           \<lparr>world = (),
              events = [Called ''get_all_pages_from_space'' (page_args ''K'' 0),
                        Wrote (progress_line 2 2 0 (Some (download_title ''K''))),
                        Called ''get_all_pages_from_space'' (page_args ''K'' 2),
                        Wrote (progress_line 3 2 0 (Some (download_title ''K'')))]\<rparr>)"
    by (simp del: passes.simps add: w pc write_progress_emits emit_def still_clock_def fl_sub_self)
  from h nxt show ?thesis ..
qed

text \<open>
  C4. When the count call returns a dictionary whose \<open>totalSize\<close> is 0 at its first
  attempt, \<open>download_space\<close> returns \<open>None\<close>, its empty result. Two things happen: the
  one call of \<open>cql\<close>, and one record of level \<open>WARNING\<close>. No page is asked for.
\<close>

theorem empty_space:
  assumes "cql e (cql_query k) (world s) = (Inr (Some d), w)" and "d ''totalSize'' = Some 0"
  shows "\<exists>evs. download_space e k s = Some (Inr None, s\<lparr>world := w, events := events s @ evs\<rparr>)
           \<and> evs = [Called ''cql'' (cql_args k), Logged WARNING (NoPagesFound k)]
           \<and> length (filter (is_log WARNING) evs) = 1
           \<and> calls_of ''get_all_pages_from_space'' evs = []"
  using assms
  by (simp add: download_space_def download_space_body_def get_page_count_returns [OF assms(1)]
      emit_def Let_def)

theorem empty_space_witness:
  "cql empty_env (cql_query ''K'') (world init) = (Inr (Some [''totalSize'' \<mapsto> 0]), ())
   \<and> [''totalSize'' \<mapsto> (0::int)] ''totalSize'' = Some 0
   \<and> download_space empty_env ''K'' init =
       Some (Inr None,
             \<lparr>world = (),
                events = [Called ''cql'' (cql_args ''K''), Logged WARNING (NoPagesFound ''K'')]\<rparr>)"
proof -
  have h1: "cql empty_env (cql_query ''K'') (world init) = (Inr (Some [''totalSize'' \<mapsto> 0]), ())"
    by (simp add: empty_env_def)
  have h2: "[''totalSize'' \<mapsto> (0::int)] ''totalSize'' = Some 0" by simp
  from empty_space [OF h1 h2] h1 show ?thesis by (simp add: init_def)
qed

text \<open>
  C5. No exception leaves \<open>download_space\<close>. Whenever the body of its \<open>try\<close> raises an
  exception, which then comes from a retry-wrapped call or from \<open>.get\<close> on \<open>None\<close>,
  \<open>download_space\<close> returns \<open>None\<close>, whatever pages were accumulated, and the last thing
  that happens is one record of level \<open>ERROR\<close> with the exception and its traceback.
\<close>

theorem download_space_absorbs:
  "(\<forall>ex s'. download_space e k s \<noteq> Some (Inl ex, s'))
   \<and> (\<forall>ex s1. download_space_body e k s = Some (Inl ex, s1) \<longrightarrow>
         download_space e k s =
           Some (Inr None, emit (Logged ERROR (FailedToDownload k ex)) s1))"
  using download_space_never_raises download_space_catches by blast

theorem download_space_absorbs_witness:
  "download_space_body denied_env ''K'' init =
     Some (Inl (Exn ApiPermissionError ''forbidden''),
           \<lparr>world = (), events = [Called ''cql'' (cql_args ''K'')]\<rparr>)
   \<and> download_space denied_env ''K'' init =
     Some (Inr None,
           \<lparr>world = (),
              events = [Called ''cql'' (cql_args ''K''),
                        Logged ERROR (FailedToDownload ''K''
                          (Exn ApiPermissionError ''forbidden''))]\<rparr>)"
proof -
  have h: "download_space_body denied_env ''K'' init =
     Some (Inl (Exn ApiPermissionError ''forbidden''),
           \<lparr>world = (), events = [Called ''cql'' (cql_args ''K'')]\<rparr>)"
    by (simp add: download_space_body_def get_page_count_def with_retry_def retry_loop.simps
        attempt_def denied_env_def init_def is_permission_def)
  from download_space_absorbs [of denied_env "''K''" init] h show ?thesis
    by (simp add: emit_def)
qed

section \<open>Properties of the logging facade\<close>

lemma registered_start: "registered (start_state reg)"
  by (simp add: registered_def start_state_def)

lemma construct_again:
  assumes "loggers s name = Some obj" and "heap s obj = Some ob" and "initialized ob"
  shows "CloudwatchLogger level name x s = (Inr obj, s)"
  using assms by (simp add: CloudwatchLogger_def cw_new_def cw_init_def)

lemma construct_fresh:
  assumes "loggers s name = None"
  shows "\<exists>ob evs. loggers (snd (CloudwatchLogger level name x s)) = (loggers s)(name \<mapsto> next_id s)
          \<and> next_id (snd (CloudwatchLogger level name x s)) = Suc (next_id s)
          \<and> heap (snd (CloudwatchLogger level name x s)) = (heap s)(next_id s \<mapsto> ob)
          \<and> initialized ob
          \<and> trace (snd (CloudwatchLogger level name x s)) = trace s @ GetLogger name # evs
          \<and> (\<forall>n. GetLogger n \<notin> set evs)"
  using assms
  by (auto simp: CloudwatchLogger_def cw_new_def cw_init_def Let_def wire_handlers_def
      file_handler_def update_obj_def update_logger_def traced_def setLevel_def addHandler_def
      set_log_level_def split: option.splits sum.splits)

lemma registered_construct:
  assumes inv: "registered s"
  shows "registered (snd (CloudwatchLogger level name x s))"
proof (cases "loggers s name")
  case (Some obj)
  with inv obtain ob where "heap s obj = Some ob" "initialized ob"
    unfolding registered_def by blast
  with Some have "CloudwatchLogger level name x s = (Inr obj, s)" by (rule construct_again)
  with inv show ?thesis by simp
next
  case None
  let ?s' = "snd (CloudwatchLogger level name x s)"
  from construct_fresh [OF None, of level x] obtain ob evs where
    lg: "loggers ?s' = (loggers s)(name \<mapsto> next_id s)" and
    nx: "next_id ?s' = Suc (next_id s)" and
    hp: "heap ?s' = (heap s)(next_id s \<mapsto> ob)" and
    ini: "initialized ob" and
    tr: "trace ?s' = trace s @ GetLogger name # evs" and
    ev: "\<forall>n. GetLogger n \<notin> set evs"
    by blast
  from inv have below: "\<And>n obj. loggers s n = Some obj \<Longrightarrow> obj < next_id s"
    by (simp add: registered_def)
  have i1: "\<forall>n obj. loggers ?s' n = Some obj \<longrightarrow>
        obj < next_id ?s' \<and> (\<exists>ob. heap ?s' obj = Some ob \<and> initialized ob)"
  proof (intro allI impI)
    fix n obj assume a: "loggers ?s' n = Some obj"
    show "obj < next_id ?s' \<and> (\<exists>ob. heap ?s' obj = Some ob \<and> initialized ob)"
    proof (cases "n = name")
      case True
      with a lg have "obj = next_id s" by simp
      with nx hp ini show ?thesis by simp
    next
      case False
      with a lg have old: "loggers s n = Some obj" by simp
      from below [OF old] have lt: "obj < next_id s" .
      from inv old obtain ob' where "heap s obj = Some ob'" "initialized ob'"
        unfolding registered_def by blast
      with lt nx hp show ?thesis by simp
    qed
  qed
  have fresh: "next_id s \<notin> ran (loggers s)"
    using below by (auto simp: ran_def)
  have i2: "inj_on (loggers ?s') (dom (loggers ?s'))"
  proof (rule inj_onI)
    fix a b assume a: "a \<in> dom (loggers ?s')" and b: "b \<in> dom (loggers ?s')"
      and eq: "loggers ?s' a = loggers ?s' b"
    from inv have inj: "inj_on (loggers s) (dom (loggers s))" by (simp add: registered_def)
    show "a = b"
    proof (cases "a = name \<or> b = name")
      case True
      with eq lg fresh show ?thesis by (auto simp: ran_def split: if_splits)
    next
      case False
      with a b eq lg have "a \<in> dom (loggers s)" "b \<in> dom (loggers s)" "loggers s a = loggers s b"
        by auto
      with inj show ?thesis by (auto dest: inj_onD)
    qed
  qed
  from inv have "dom (heap s) = ran (loggers s)" by (simp add: registered_def)
  with None lg hp have i3: "dom (heap ?s') = ran (loggers ?s')" by simp
  have i4: "\<forall>n. count_list (trace ?s') (GetLogger n) = (if n \<in> dom (loggers ?s') then 1 else 0)"
  proof
    fix n
    from ev have "count_list evs (GetLogger n) = 0" by (simp add: count_list_0_iff)
    moreover from inv have "count_list (trace s) (GetLogger n) = (if n \<in> dom (loggers s) then 1 else 0)"
      by (simp add: registered_def)
    ultimately show "count_list (trace ?s') (GetLogger n) = (if n \<in> dom (loggers ?s') then 1 else 0)"
      using None lg tr by (auto simp: dom_def)
  qed
  from i1 i2 i3 i4 show ?thesis by (simp add: registered_def)
qed

lemma registered_construct_all: "registered s \<Longrightarrow> registered (construct_all cs s)"
  by (induction cs arbitrary: s) (auto simp: registered_construct)

lemma cw_new_registers: "loggers (snd (cw_new name s)) name = Some (fst (cw_new name s))"
  by (simp add: cw_new_def split: option.splits)

lemma cw_init_loggers: "loggers (snd (cw_init obj level name x s)) = loggers s"
  by (simp add: cw_init_def Let_def wire_handlers_def file_handler_def update_obj_def
      update_logger_def traced_def setLevel_def addHandler_def set_log_level_def
      split: option.splits sum.splits prod.splits)

lemma construct_returns_registered:
  assumes "CloudwatchLogger level name x s = (Inr obj, s1)"
  shows "loggers s1 name = Some obj"
proof -
  obtain ob t where n: "cw_new name s = (ob, t)" by (cases "cw_new name s")
  obtain r t' where i: "cw_init ob level name x t = (r, t')" by (cases "cw_init ob level name x t")
  from assms n i have "obj = ob" "s1 = t'"
    by (auto simp: CloudwatchLogger_def split: sum.splits)
  moreover from cw_init_loggers [of ob level name x t] i have "loggers t' = loggers t" by simp
  moreover from cw_new_registers [of name s] n have "loggers t name = Some ob" by simp
  ultimately show ?thesis by simp
qed

text \<open>
  C10. In the state after any constructions, from an empty \<open>_loggers\<close> and any loggers:
  two names never share an instance and every instance belongs to a name, so there is one
  instance for each name constructed and no other; \<open>logging.getLogger(name)\<close>, the first
  call of the body of \<open>__init__\<close>, has been made at most once for each name; a name in
  \<open>_loggers\<close> has an initialised instance, and constructing it again, with any level and
  whatever the outside world does, returns that instance and changes nothing: no level, no
  handler, no call to the tracer. In particular a construction that returns an instance,
  followed by a construction with the same name, returns the same instance and leaves the
  state as it is.
\<close>

theorem one_instance_per_name:
  assumes "s = construct_all cs (start_state reg)"
  shows "inj_on (loggers s) (dom (loggers s))
     \<and> dom (heap s) = ran (loggers s)
     \<and> (\<forall>name. count_list (trace s) (GetLogger name) \<le> 1)
     \<and> (\<forall>name obj. loggers s name = Some obj \<longrightarrow>
           (\<exists>ob. heap s obj = Some ob \<and> initialized ob)
           \<and> (\<forall>level x. CloudwatchLogger level name x s = (Inr obj, s)))
     \<and> (\<forall>level1 level2 x1 x2 name obj s1.
           CloudwatchLogger level1 name x1 s = (Inr obj, s1) \<longrightarrow>
           CloudwatchLogger level2 name x2 s1 = (Inr obj, s1))"
proof -
  from assms have inv: "registered s"
    by (simp add: registered_start registered_construct_all)
  have again: "(\<exists>ob. heap t obj = Some ob \<and> initialized ob)
      \<and> (\<forall>level x. CloudwatchLogger level name x t = (Inr obj, t))"
    if "registered t" and "loggers t name = Some obj" for t name obj
  proof -
    from that obtain ob where "heap t obj = Some ob" "initialized ob"
      unfolding registered_def by blast
    with that(2) show ?thesis by (auto intro: construct_again)
  qed
  have twice: "CloudwatchLogger level2 name x2 s1 = (Inr obj, s1)"
    if c: "CloudwatchLogger level1 name x1 s = (Inr obj, s1)" for level1 level2 x1 x2 name obj s1
  proof -
    from registered_construct [OF inv, of level1 name x1] c have "registered s1" by simp
    moreover from c have "loggers s1 name = Some obj" by (rule construct_returns_registered)
    ultimately show ?thesis using again by blast
  qed
  from inv have "inj_on (loggers s) (dom (loggers s))" "dom (heap s) = ran (loggers s)"
    "\<forall>name. count_list (trace s) (GetLogger name) \<le> 1"
    by (simp_all add: registered_def)
  with again [OF inv] twice show ?thesis by blast
qed

theorem one_instance_per_name_witness:
  "construct_all [(LevelStr ''error'', ''svc'', quiet)] (start_state fresh_loggers) =
     \<lparr>loggers = [''svc'' \<mapsto> 0],
        heap = [0 \<mapsto> \<lparr>initialized = True, logger = Some ''svc'', logger_name = Some ''svc''\<rparr>],
        next_id = 1,
        logging = fresh_loggers(''svc'' :=
          \<lparr>lg_level = 10, lg_handlers = [StreamHandler, CloudWatchLogHandler, FileHandler],
             lg_propagate = False\<rparr>),
        trace = [GetLogger ''svc'', XrayConfigure, PatchAll]\<rparr>
   \<and> CloudwatchLogger (LevelInt 40) ''svc'' quiet
         (construct_all [(LevelStr ''error'', ''svc'', quiet)] (start_state fresh_loggers)) =
       (Inr 0, construct_all [(LevelStr ''error'', ''svc'', quiet)] (start_state fresh_loggers))"
proof -
  let ?s = "construct_all [(LevelStr ''error'', ''svc'', quiet)] (start_state fresh_loggers)"
  have lv: "check_level (resolve_level (LevelStr ''error'')) = Inr 40" by code_simp
  have v: "?s =
     \<lparr>loggers = [''svc'' \<mapsto> 0],
        heap = [0 \<mapsto> \<lparr>initialized = True, logger = Some ''svc'', logger_name = Some ''svc''\<rparr>],
        next_id = 1,
        logging = fresh_loggers(''svc'' :=
          \<lparr>lg_level = 10, lg_handlers = [StreamHandler, CloudWatchLogHandler, FileHandler],
             lg_propagate = False\<rparr>),
        trace = [GetLogger ''svc'', XrayConfigure, PatchAll]\<rparr>"
    by (simp add: CloudwatchLogger_def cw_new_def cw_init_def Let_def wire_handlers_def
      file_handler_def update_obj_def update_logger_def traced_def setLevel_def addHandler_def
      set_log_level_def lv start_state_def quiet_def hasHandlers_def fresh_loggers_def
      logger_key_def)
  then have r: "loggers ?s ''svc'' = Some 0" by simp
  from one_instance_per_name [OF refl, of "[(LevelStr ''error'', ''svc'', quiet)]" fresh_loggers] r
  have "CloudwatchLogger (LevelInt 40) ''svc'' quiet ?s = (Inr 0, ?s)" by blast
  with v show ?thesis by simp
qed

end
